theory Spec2Isabelle
  imports Main "HOL-Library.AList" "HOL-Library.Char_ord" "HOL-Library.List_Lexorder"
    "HOL-Library.Multiset"
begin

section \<open>Python values used by \<^verbatim>\<open>pghoard/object_store.py\<close>\<close>

text \<open>
  Exceptions are values: the classes that the code names or meets, and, by the name of
  the class, an instance of any other class that derives from \<^verbatim>\<open>Exception\<close> or from
  \<^verbatim>\<open>BaseException\<close> only. An \<^verbatim>\<open>except Exception\<close> clause catches the classes that
  derive from \<^verbatim>\<open>Exception\<close> (\<open>PermissionError\<close> does, through \<open>OSError\<close>);
  \<open>KeyboardInterrupt\<close> and \<open>SystemExit\<close> derive from \<^verbatim>\<open>BaseException\<close> only and pass
  through such a clause.
\<close>

datatype error =
    StorageError
  | FileNotFoundFromStorageError
  | KeyError string
  | TypeError
  | AttributeError
  | ValueError
  | IndexError
  | OSError
  | PermissionError
  | ExceptionSubclass string
  | KeyboardInterrupt
  | SystemExit
  | BaseExceptionSubclass string


subsection \<open>Decimal rendering\<close>

definition digit_char :: "nat \<Rightarrow> char" where
  "digit_char d = ''0123456789'' ! (d mod 10)"

fun show_nat :: "nat \<Rightarrow> string" where
  "show_nat n = (if n < 10 then [digit_char n] else show_nat (n div 10) @ [digit_char n])"

declare show_nat.simps [simp del]

definition show_int :: "int \<Rightarrow> string" where
  "show_int i = (if i < 0 then CHR ''-'' # show_nat (nat (- i)) else show_nat (nat i))"

text \<open>\<^verbatim>\<open>"%0wd" % n\<close> for a natural number: zeros on the left up to width \<open>w\<close>, never cut.\<close>

definition zpad :: "nat \<Rightarrow> nat \<Rightarrow> string" where
  "zpad w n = replicate (w - length (show_nat n)) (CHR ''0'') @ show_nat n"

subsection \<open>\<^verbatim>\<open>datetime.datetime\<close> and its \<^verbatim>\<open>str()\<close>\<close>

text \<open>
  The fields of a \<^verbatim>\<open>datetime\<close>; \<open>dt_utcoffset\<close> is \<^verbatim>\<open>tzinfo.utcoffset()\<close> in whole
  seconds, \<open>None\<close> for a naive value.
\<close>

record datetime =
  dt_year :: nat
  dt_month :: nat
  dt_day :: nat
  dt_hour :: nat
  dt_minute :: nat
  dt_second :: nat
  dt_microsecond :: nat
  dt_utcoffset :: "int option"

text \<open>
  \<^verbatim>\<open>dt.isoformat(sep)\<close>: date, the separator, the time, the microseconds only when
  they are not zero, then the offset \<^verbatim>\<open>+HH:MM\<close> (with \<^verbatim>\<open>:SS\<close> when the offset has
  seconds) when the value is aware. \<^verbatim>\<open>str(dt)\<close> is \<^verbatim>\<open>dt.isoformat(sep=" ")\<close>.
\<close>

definition format_offset :: "int \<Rightarrow> string" where
  "format_offset off =
     (let a = nat (abs off);
          hh = a div 3600;
          mm = (a mod 3600) div 60;
          ss = a mod 60
      in (if off < 0 then ''-'' else ''+'') @ zpad 2 hh @ '':'' @ zpad 2 mm @
         (if ss \<noteq> 0 then '':'' @ zpad 2 ss else []))"

definition isoformat :: "char \<Rightarrow> datetime \<Rightarrow> string" where
  "isoformat sep d =
     zpad 4 (dt_year d) @ ''-'' @ zpad 2 (dt_month d) @ ''-'' @ zpad 2 (dt_day d) @ [sep] @
     zpad 2 (dt_hour d) @ '':'' @ zpad 2 (dt_minute d) @ '':'' @ zpad 2 (dt_second d) @
     (if dt_microsecond d \<noteq> 0 then ''.'' @ zpad 6 (dt_microsecond d) else []) @
     (case dt_utcoffset d of None \<Rightarrow> [] | Some off \<Rightarrow> format_offset off)"

definition str_datetime :: "datetime \<Rightarrow> string" where
  "str_datetime d = isoformat (CHR '' '') d"

subsection \<open>Paths: \<^verbatim>\<open>pathlib.Path(s).name\<close> and \<^verbatim>\<open>os.path.join\<close>\<close>

fun split_on :: "char \<Rightarrow> string \<Rightarrow> string list" where
  "split_on d [] = [[]]"
| "split_on d (c # cs) =
     (if c = d then [] # split_on d cs
      else (case split_on d cs of [] \<Rightarrow> [[c]] | w # ws \<Rightarrow> (c # w) # ws))"

text \<open>
  \<^verbatim>\<open>Path(s).name\<close>: the path is cut at \<^verbatim>\<open>/\<close>, empty components and \<^verbatim>\<open>.\<close> are dropped,
  and the name is the last component left (the empty string when there is none).
\<close>

definition path_parts :: "string \<Rightarrow> string list" where
  "path_parts s = filter (\<lambda>c. c \<noteq> [] \<and> c \<noteq> ''.'') (split_on (CHR ''/'') s)"

definition path_name :: "string \<Rightarrow> string" where
  "path_name s = (case path_parts s of [] \<Rightarrow> [] | p # ps \<Rightarrow> last (p # ps))"

text \<open>
  \<^verbatim>\<open>posixpath.join(a, *p)\<close>: a component that starts with \<^verbatim>\<open>/\<close> replaces what was joined
  so far; otherwise it is appended, after a \<^verbatim>\<open>/\<close> unless the path so far is empty or
  already ends with one.
\<close>

definition join_step :: "string \<Rightarrow> string \<Rightarrow> string" where
  "join_step path b =
     (if b \<noteq> [] \<and> hd b = CHR ''/'' then b
      else if path = [] \<or> last path = CHR ''/'' then path @ b
      else path @ ''/'' @ b)"

definition os_path_join :: "string \<Rightarrow> string list \<Rightarrow> string" where
  "os_path_join a p = foldl join_step a p"

section \<open>The object store\<close>

text \<open>
  Modelled from the spec: the storage driver (\<^verbatim>\<open>rohmu.BaseTransfer\<close>) is an external
  library; section 4.A gives its contract: blobs with per-key metadata, put, delete and
  a non-recursive list, each of which may fail. The driver does not wrap the errors of
  its implementations (\<^verbatim>\<open>object_store.py\<close>, lines 55 and 56), so a failure can be an
  exception of any class. A store is the association list of its blobs and \<open>fault\<close>,
  the exception that its operations raise at present, if any (the tests make the
  directory unreadable, on which the local driver raises \<open>PermissionError\<close>). Deleting a
  key that is absent fails as well.
\<close>

type_synonym metadata = "(string \<times> string) list"

record storage =
  objects :: "(string \<times> (string \<times> metadata)) list"
  fault :: "error option"

definition available :: "storage \<Rightarrow> bool" where
  "available st = (fault st = None)"

definition store_file_from_memory ::
    "storage \<Rightarrow> string \<Rightarrow> string \<Rightarrow> metadata \<Rightarrow> error + storage" where
  "store_file_from_memory st key memstring md =
     (case fault st of
        Some e \<Rightarrow> Inl e
      | None \<Rightarrow> Inr (st\<lparr>objects := AList.update key (memstring, md) (objects st)\<rparr>))"

definition delete_key :: "storage \<Rightarrow> string \<Rightarrow> error + storage" where
  "delete_key st key =
     (case fault st of
        Some e \<Rightarrow> Inl e
      | None \<Rightarrow>
          if map_of (objects st) key = None then Inl FileNotFoundFromStorageError
          else Inr (st\<lparr>objects := AList.delete key (objects st)\<rparr>))"

text \<open>The directory part of a key: what stands before its last \<^verbatim>\<open>/\<close>.\<close>

definition key_dir :: "string \<Rightarrow> string" where
  "key_dir k = rev (drop 1 (dropWhile (\<lambda>c. c \<noteq> CHR ''/'') (rev k)))"

definition list_path :: "storage \<Rightarrow> string \<Rightarrow> (string \<times> (string \<times> metadata)) list" where
  "list_path st p = filter (\<lambda>e. key_dir (fst e) = p) (objects st)"

section \<open>Backup entries\<close>

text \<open>
  \<^verbatim>\<open>BaseBackupInfo\<close> and its subclass \<^verbatim>\<open>BaseBackupInfoFromBucket\<close>. The types of the
  name and of the data are parameters: a bucket listing and the printing code work on
  string names, the HTTP listing stores whatever JSON value the response holds. The
  storage object and the logger that the subclass keeps are passed as state.
\<close>

record ('n, 'd) BaseBackupInfo =
  name :: 'n
  data :: 'd
  site :: string

record ('n, 'd) BaseBackupInfoFromBucket = "('n, 'd) BaseBackupInfo" +
  prefix :: string

definition request_path_of :: "(string, 'd) BaseBackupInfoFromBucket \<Rightarrow> string \<Rightarrow> string" where
  "request_path_of self request_name =
     os_path_join (prefix self) [''preservation_request'', request_name]"

definition request_backup_preservation ::
    "(string, 'd) BaseBackupInfoFromBucket \<Rightarrow> datetime \<Rightarrow> storage \<Rightarrow> error + (string \<times> storage)" where
  "request_backup_preservation self preserve_until st =
     (let backup_name = path_name (name self);
          request_name = backup_name @ ''_'' @ str_datetime preserve_until;
          request_path = request_path_of self request_name
      in case store_file_from_memory st request_path []
                [(''preserve-backup'', backup_name),
                 (''preserve-until'', str_datetime preserve_until)] of
           Inl e \<Rightarrow> Inl e
         | Inr st' \<Rightarrow> Inr (request_name, st'))"

definition cancel_backup_preservation ::
    "(string, 'd) BaseBackupInfoFromBucket \<Rightarrow> string \<Rightarrow> storage \<Rightarrow> error + storage" where
  "cancel_backup_preservation self request_name st =
     delete_key st (request_path_of self request_name)"



subsection \<open>The values of \<^verbatim>\<open>test/test_object_store.py\<close>\<close>

definition test_store :: "(string, unit) BaseBackupInfoFromBucket" where
  "test_store = \<lparr>name = ''2022_12_10'', data = (), site = [], prefix = ''site_name''\<rparr>"

definition test_until :: datetime where
  "test_until = \<lparr>dt_year = 2022, dt_month = 12, dt_day = 18, dt_hour = 10, dt_minute = 20,
     dt_second = 30, dt_microsecond = 123456, dt_utcoffset = Some 0\<rparr>"

definition test_storage :: storage where
  "test_storage = \<lparr>objects = [], fault = None\<rparr>"

definition unreadable_storage :: storage where
  "unreadable_storage = \<lparr>objects = [], fault = Some PermissionError\<rparr>"

section \<open>Listing over HTTP\<close>

text \<open>
  The value of \<^verbatim>\<open>response.json()\<close>. An object is the list of its members in the
  order of the parsed dictionary; a number is kept as an integer, its value plays no
  part in the listing.
\<close>

datatype json =
    JNull
  | JBool bool
  | JNum int
  | JStr string
  | JArr "json list"
  | JObj "(string \<times> json) list"

text \<open>\<^verbatim>\<open>v[key]\<close> with a string key: only a dictionary that has the key answers.\<close>

fun py_getitem :: "json \<Rightarrow> string \<Rightarrow> error + json" where
  "py_getitem (JObj kvs) k = (case map_of kvs k of None \<Rightarrow> Inl (KeyError k) | Some v \<Rightarrow> Inr v)"
| "py_getitem _ k = Inl TypeError"

text \<open>
  \<^verbatim>\<open>for x in v\<close>: a list gives its elements, a dictionary its keys, a string its
  characters; nothing else can be iterated.
\<close>

fun py_iter :: "json \<Rightarrow> error + json list" where
  "py_iter (JArr xs) = Inr xs"
| "py_iter (JObj kvs) = Inr (map (\<lambda>kv. JStr (fst kv)) kvs)"
| "py_iter (JStr s) = Inr (map (\<lambda>c. JStr [c]) s)"
| "py_iter _ = Inl TypeError"

text \<open>
  \<^verbatim>\<open>HTTPRestore\<close>: host, port and the sites of \<^verbatim>\<open>ObjectStore\<close>. The session is the
  function \<open>get\<close> from the URL of a request to the parsed body of the answer, or to the
  exception that \<^verbatim>\<open>session.get\<close> or \<^verbatim>\<open>response.json()\<close> raises.
\<close>

record HTTPRestore =
  host :: string
  port :: string
  sites :: "string list"

definition url :: "HTTPRestore \<Rightarrow> string \<Rightarrow> string \<Rightarrow> string" where
  "url self path s = ''http://'' @ host self @ '':'' @ port self @ ''/'' @ s @ ''/'' @ path"

text \<open>The inner loop: one \<^verbatim>\<open>BaseBackupInfo\<close> for each element, in order.\<close>

fun append_basebackups ::
    "string \<Rightarrow> json list \<Rightarrow> (json, json) BaseBackupInfo list
       \<Rightarrow> error + (json, json) BaseBackupInfo list" where
  "append_basebackups s [] result = Inr result"
| "append_basebackups s (basebackup # rest) result =
     (case py_getitem basebackup ''name'' of
        Inl e \<Rightarrow> Inl e
      | Inr n \<Rightarrow> append_basebackups s rest (result @ [\<lparr>name = n, data = basebackup, site = s\<rparr>]))"

text \<open>
  The outer loop over the sites. The first component of the result is the list of the
  URLs asked so far, the second the exception that ended the call or the list built.
\<close>

fun list_basebackups_loop ::
    "(string \<Rightarrow> error + json) \<Rightarrow> HTTPRestore \<Rightarrow> string list \<Rightarrow> string list
       \<Rightarrow> (json, json) BaseBackupInfo list
       \<Rightarrow> string list \<times> (error + (json, json) BaseBackupInfo list)" where
  "list_basebackups_loop get self [] asked result = (asked, Inr result)"
| "list_basebackups_loop get self (s # rest) asked result =
     (let u = url self ''basebackup'' s in
      case get u of
        Inl e \<Rightarrow> (asked @ [u], Inl e)
      | Inr response \<Rightarrow>
          (case py_getitem response ''basebackups'' of
             Inl e \<Rightarrow> (asked @ [u], Inl e)
           | Inr listing \<Rightarrow>
               (case py_iter listing of
                  Inl e \<Rightarrow> (asked @ [u], Inl e)
                | Inr elements \<Rightarrow>
                    (case append_basebackups s elements result of
                       Inl e \<Rightarrow> (asked @ [u], Inl e)
                     | Inr result' \<Rightarrow>
                         list_basebackups_loop get self rest (asked @ [u]) result'))))"

definition list_basebackups ::
    "(string \<Rightarrow> error + json) \<Rightarrow> HTTPRestore
       \<Rightarrow> string list \<times> (error + (json, json) BaseBackupInfo list)" where
  "list_basebackups get self = list_basebackups_loop get self (sites self) [] []"

definition test_agent :: "string \<Rightarrow> error + json" where
  "test_agent u =
     (if u = ''http://localhost:16000/a/basebackup''
      then Inr (JObj [(''basebackups'',
             JArr [JObj [(''name'', JStr ''b2''), (''size'', JNum 5)],
                   JObj [(''name'', JStr ''b1'')]])])
      else Inr (JObj [(''basebackups'', JArr [JObj [(''name'', JStr ''b0'')]])]))"

definition test_restore :: HTTPRestore where
  "test_restore = \<lparr>host = ''localhost'', port = ''16000'', sites = [''a'', ''b'']\<rparr>"

definition test_listing :: "string \<Rightarrow> (string \<times> json) list list" where
  "test_listing s =
     (if s = ''a'' then [[(''name'', JStr ''b2''), (''size'', JNum 5)], [(''name'', JStr ''b1'')]]
      else [[(''name'', JStr ''b0'')]])"

definition name_field :: "(string \<times> json) list \<Rightarrow> json" where
  "name_field b = (case map_of b ''name'' of None \<Rightarrow> JNull | Some v \<Rightarrow> v)"

section \<open>Printing the list of backups\<close>

subsection \<open>Dictionaries as objects\<close>

text \<open>
  \<open>print_basebackup_list\<close> copies a dictionary and removes a key from the copy, so the
  dictionaries are objects in a store: an address is an index into the list of the
  dictionaries allocated so far, and a value that is a dictionary is the address of one.
  A dictionary is the list of its items in insertion order, its keys are strings.
\<close>

type_synonym addr = nat

datatype pyval =
    VNone
  | VStr string
  | VInt int
  | VDatetime datetime
  | VDict addr

type_synonym pydict = "(string \<times> pyval) list"

type_synonym heap = "pydict list"

text \<open>\<^verbatim>\<open>d[k]\<close>, \<^verbatim>\<open>d.get(k, default)\<close> and \<^verbatim>\<open>d.pop(k)\<close>.\<close>

definition dict_getitem :: "pydict \<Rightarrow> string \<Rightarrow> error + pyval" where
  "dict_getitem d k = (case map_of d k of None \<Rightarrow> Inl (KeyError k) | Some v \<Rightarrow> Inr v)"

definition dict_get :: "pydict \<Rightarrow> string \<Rightarrow> pyval \<Rightarrow> pyval" where
  "dict_get d k dflt = (case map_of d k of None \<Rightarrow> dflt | Some v \<Rightarrow> v)"

definition dict_pop :: "pydict \<Rightarrow> string \<Rightarrow> error + (pyval \<times> pydict)" where
  "dict_pop d k =
     (case map_of d k of None \<Rightarrow> Inl (KeyError k) | Some v \<Rightarrow> Inr (v, AList.delete k d))"

text \<open>The truth value of an object, as \<^verbatim>\<open>x or 0\<close> tests it.\<close>

fun truthy :: "heap \<Rightarrow> pyval \<Rightarrow> bool" where
  "truthy h VNone = False"
| "truthy h (VStr s) = (s \<noteq> [])"
| "truthy h (VInt i) = (i \<noteq> 0)"
| "truthy h (VDatetime d) = True"
| "truthy h (VDict a) = (h ! a \<noteq> [])"

subsection \<open>Library functions taken as given\<close>

text \<open>
  The functions of \<^verbatim>\<open>rohmu.dates\<close> and of the standard library that the printing code
  calls and that are not modelled here: \<^verbatim>\<open>dates.parse_timestamp\<close>, the conversion
  \<^verbatim>\<open>astimezone(datetime.timezone.utc)\<close> of an aware value, \<^verbatim>\<open>int()\<close> of a string and
  \<^verbatim>\<open>repr()\<close> of a string.
\<close>

record library =
  parse_timestamp :: "string \<Rightarrow> error + datetime"
  astimezone_utc :: "datetime \<Rightarrow> error + datetime"
  int_of_str :: "string \<Rightarrow> error + int"
  repr_str :: "string \<Rightarrow> string"

fun py_int :: "library \<Rightarrow> pyval \<Rightarrow> error + int" where
  "py_int lib (VInt i) = Inr i"
| "py_int lib (VStr s) = int_of_str lib s"
| "py_int lib _ = Inl TypeError"

subsection \<open>The columns of a row\<close>

text \<open>The format specifications \<^verbatim>\<open>{:w}\<close> and \<^verbatim>\<open>{:>w}\<close> applied to a string.\<close>

definition ljust :: "nat \<Rightarrow> string \<Rightarrow> string" where
  "ljust w s = s @ replicate (w - length s) (CHR '' '')"

definition rjust :: "nat \<Rightarrow> string \<Rightarrow> string" where
  "rjust w s = replicate (w - length s) (CHR '' '') @ s"

text \<open>\<^verbatim>\<open>"{name:40}  {size:>11}  {orig_size:>11}  {time:20}".format\<close>\<close>

definition fmt :: "string \<Rightarrow> string \<Rightarrow> string \<Rightarrow> string \<Rightarrow> string" where
  "fmt nm sz orig_size time =
     ljust 40 nm @ ''  '' @ rjust 11 sz @ ''  '' @ rjust 11 orig_size @ ''  '' @ ljust 20 time"

text \<open>
  The start time: a string is parsed; an aware value is converted to UTC and made
  naive; the text is the first 19 characters of the ISO format followed by \<open>Z\<close>.
  A value that is neither a string nor a datetime has no \<^verbatim>\<open>tzinfo\<close>.
\<close>

definition lm_text :: "library \<Rightarrow> datetime \<Rightarrow> error + string" where
  "lm_text lib lm =
     (if dt_utcoffset lm \<noteq> None
      then (case astimezone_utc lib lm of
              Inl e \<Rightarrow> Inl e
            | Inr u \<Rightarrow> Inr (take 19 (isoformat (CHR ''T'') (u\<lparr>dt_utcoffset := None\<rparr>)) @ ''Z''))
      else Inr (take 19 (isoformat (CHR ''T'') lm) @ ''Z''))"

fun lm_str :: "library \<Rightarrow> pyval \<Rightarrow> error + string" where
  "lm_str lib (VStr s) =
     (case parse_timestamp lib s of Inl e \<Rightarrow> Inl e | Inr lm \<Rightarrow> lm_text lib lm)"
| "lm_str lib (VDatetime lm) = lm_text lib lm"
| "lm_str lib _ = Inl AttributeError"

text \<open>
  \<^verbatim>\<open>"{} MB".format(int(meta.get("total-size-enc", basebackup.data["size"])) // (1024 ** 2))\<close>:
  the default \<^verbatim>\<open>basebackup.data["size"]\<close> is evaluated before the lookup.
\<close>

definition size_str :: "library \<Rightarrow> pydict \<Rightarrow> pydict \<Rightarrow> error + string" where
  "size_str lib meta d =
     (case dict_getitem d ''size'' of
        Inl e \<Rightarrow> Inl e
      | Inr dflt \<Rightarrow>
          (case py_int lib (dict_get meta ''total-size-enc'' dflt) of
             Inl e \<Rightarrow> Inl e
           | Inr n \<Rightarrow> Inr (show_int (n div (1024 ^ 2)) @ '' MB'')))"

text \<open>
  \<^verbatim>\<open>int(meta.get("total-size-plain", meta.get("original-file-size")) or 0)\<close>, then
  \<^verbatim>\<open>"{} MB"\<close> when the size is not zero and \<^verbatim>\<open>"n/a"\<close> otherwise.
\<close>

definition orig_size_str :: "library \<Rightarrow> heap \<Rightarrow> pydict \<Rightarrow> error + string" where
  "orig_size_str lib h meta =
     (let x = dict_get meta ''total-size-plain'' (dict_get meta ''original-file-size'' VNone)
      in case py_int lib (if truthy h x then x else VInt 0) of
           Inl e \<Rightarrow> Inl e
         | Inr orig_size \<Rightarrow>
             Inr (if orig_size \<noteq> 0 then show_int (orig_size div (1024 ^ 2)) @ '' MB''
                  else ''n/a''))"

text \<open>The text of a row, from the popped start time \<open>lm\<close>, the copy \<open>meta\<close> and the data.\<close>

definition row_text ::
    "library \<Rightarrow> heap \<Rightarrow> string \<Rightarrow> pydict \<Rightarrow> pydict \<Rightarrow> pyval \<Rightarrow> error + string" where
  "row_text lib h nm meta d lm =
     (case lm_str lib lm of
        Inl e \<Rightarrow> Inl e
      | Inr time \<Rightarrow>
          (case size_str lib meta d of
             Inl e \<Rightarrow> Inl e
           | Inr sz \<Rightarrow>
               (case orig_size_str lib h meta of
                  Inl e \<Rightarrow> Inl e
                | Inr orig_size \<Rightarrow> Inr (fmt nm sz orig_size time))))"

subsection \<open>The loop\<close>

text \<open>
  What is printed: a \<open>Line\<close> is the text of one \<^verbatim>\<open>print\<close> call, \<open>Metadata\<close> is the call
  \<^verbatim>\<open>print("    metadata:", meta)\<close> with the dictionary as it is at that moment.
\<close>

datatype printed = Line string | Metadata pydict

text \<open>
  The body of the loop for one entry, on the store and the output so far. The copy of
  \<^verbatim>\<open>basebackup.data["metadata"]\<close> is a new dictionary at the next free address, and
  \<^verbatim>\<open>meta.pop("start-time")\<close> changes the dictionary at that address. The result is the
  store and the output after the body, and the exception that ended it, if any.
\<close>

definition print_entry ::
    "library \<Rightarrow> bool \<Rightarrow> (string, addr) BaseBackupInfo \<Rightarrow> heap \<times> printed list
       \<Rightarrow> (heap \<times> printed list) \<times> error option" where
  "print_entry lib verbose basebackup s =
     (let h = fst s; out = snd s in
      case dict_getitem (h ! data basebackup) ''metadata'' of
        Inl e \<Rightarrow> (s, Some e)
      | Inr (VDict a) \<Rightarrow>
          (let meta = length h;
               h1 = h @ [h ! a]
           in case dict_pop (h1 ! meta) ''start-time'' of
                Inl e \<Rightarrow> ((h1, out), Some e)
              | Inr (lm, popped) \<Rightarrow>
                  (let h2 = h1[meta := popped] in
                   case row_text lib h2 (name basebackup) (h2 ! meta) (h2 ! data basebackup) lm of
                     Inl e \<Rightarrow> ((h2, out), Some e)
                   | Inr row \<Rightarrow>
                       ((h2, out @ [Line row] @
                              (if verbose then [Metadata (h2 ! meta)] else [])), None)))
      | Inr _ \<Rightarrow> (s, Some AttributeError))"

fun print_entries ::
    "library \<Rightarrow> bool \<Rightarrow> (string, addr) BaseBackupInfo list \<Rightarrow> heap \<times> printed list
       \<Rightarrow> (heap \<times> printed list) \<times> error option" where
  "print_entries lib verbose [] s = (s, None)"
| "print_entries lib verbose (b # bs) s =
     (case print_entry lib verbose b s of
        (s', Some e) \<Rightarrow> (s', Some e)
      | (s', None) \<Rightarrow> print_entries lib verbose bs s')"

text \<open>The three lines printed before the loop.\<close>

definition table_head :: "string \<Rightarrow> printed list" where
  "table_head caption =
     [Line (caption @ '' '' @ [CHR 0x0A]),
      Line (fmt ''Basebackup'' ''Backup size'' ''Orig size'' ''Start time''),
      Line (fmt (replicate 40 (CHR ''-'')) (replicate 11 (CHR ''-''))
                (replicate 11 (CHR ''-'')) (replicate 20 (CHR ''-'')))]"

text \<open>
  \<^verbatim>\<open>sorted(basebackups, key=lambda b: b.name)\<close> is a stable sort on the names, compared as
  strings; \<open>sort_key\<close> is one as well.
\<close>

definition print_basebackup_list ::
    "library \<Rightarrow> (string, addr) BaseBackupInfo list \<Rightarrow> string \<Rightarrow> bool \<Rightarrow> heap
       \<Rightarrow> (heap \<times> printed list) \<times> error option" where
  "print_basebackup_list lib basebackups caption verbose h =
     print_entries lib verbose (sort_key name basebackups) (h, table_head caption)"

text \<open>
  \<^verbatim>\<open>ObjectStore.show_basebackup_list\<close>: \<open>result\<close> is the outcome of the abstract method
  \<^verbatim>\<open>self.list_basebackups()\<close>, \<open>ss\<close> the sites of the store.
\<close>

definition show_basebackup_list ::
    "library \<Rightarrow> string list \<Rightarrow> error + (string, addr) BaseBackupInfo list \<Rightarrow> bool \<Rightarrow> heap
       \<Rightarrow> (heap \<times> printed list) \<times> error option" where
  "show_basebackup_list lib ss result verbose h =
     (case result of
        Inl e \<Rightarrow> ((h, []), Some e)
      | Inr bs \<Rightarrow>
          (case ss of
             [] \<Rightarrow> ((h, []), Some IndexError)
           | s # _ \<Rightarrow>
               print_basebackup_list lib bs (''Available '' @ repr_str lib s @ '' basebackups:'')
                 verbose h))"

text \<open>What one entry prints when the loop body runs on it alone.\<close>

definition entry_output ::
    "library \<Rightarrow> bool \<Rightarrow> heap \<Rightarrow> (string, addr) BaseBackupInfo \<Rightarrow> printed list" where
  "entry_output lib verbose h b = snd (fst (print_entry lib verbose b (h, [])))"

text \<open>
  Every dictionary held in a dictionary of the store is in the store: there are no
  dangling references.
\<close>

definition refs_in :: "heap \<Rightarrow> pydict \<Rightarrow> bool" where
  "refs_in h d = (\<forall>kv \<in> set d. case snd kv of VDict a \<Rightarrow> a < length h | _ \<Rightarrow> True)"

definition heap_ok :: "heap \<Rightarrow> bool" where
  "heap_ok h = (\<forall>d \<in> set h. refs_in h d)"

subsection \<open>Example values\<close>

definition plain_library :: library where
  "plain_library =
     \<lparr>parse_timestamp = (\<lambda>s. Inl ValueError),
      astimezone_utc = (\<lambda>d. Inr d),
      int_of_str = (\<lambda>s. Inl ValueError),
      repr_str = (\<lambda>s. [CHR 0x27] @ s @ [CHR 0x27])\<rparr>"

definition noon :: datetime where
  "noon = \<lparr>dt_year = 2022, dt_month = 12, dt_day = 10, dt_hour = 12, dt_minute = 0,
     dt_second = 0, dt_microsecond = 0, dt_utcoffset = None\<rparr>"

text \<open>
  Two entries of the same name: their data are at the addresses 0 and 2, their metadata
  at 1 and 3.
\<close>

definition twin_heap :: heap where
  "twin_heap =
     [[(''name'', VStr ''b''), (''size'', VInt 1048576), (''metadata'', VDict 1)],
      [(''start-time'', VDatetime noon)],
      [(''name'', VStr ''b''), (''size'', VInt 2097152), (''metadata'', VDict 3)],
      [(''start-time'', VDatetime noon), (''total-size-plain'', VInt 3145728)]]"

definition twin_one :: "(string, addr) BaseBackupInfo" where
  "twin_one = \<lparr>name = ''b'', data = 0, site = ''s1''\<rparr>"

definition twin_two :: "(string, addr) BaseBackupInfo" where
  "twin_two = \<lparr>name = ''b'', data = 2, site = ''s2''\<rparr>"

section \<open>The hashes of earlier backups\<close>

text \<open>
  Modelled from the spec: \<^verbatim>\<open>PGBaseBackup.fetch_all_data_files_hashes\<close> belongs to
  \<^verbatim>\<open>pghoard/basebackup/base.py\<close>, which is not among the sources; only its test
  \<^verbatim>\<open>test_fetch_all_data_files_hashes\<close> is. Section 3 gives the formats of a backup
  entry, section 4.E the steps (list the manifests, fetch the manifest blob of those
  that are not too old, merge their \<^verbatim>\<open>delta_stats.hashes\<close>), section 9 the formats the
  source takes (\<open>v1\<close> is skipped, \<open>v2\<close>, \<open>delta-v1\<close> and \<open>delta-v2\<close> are included; a
  backup in mode \<open>local-tar-delta-stats\<close> writes a \<open>v2\<close> manifest with \<open>delta_stats\<close>).
  The manifest blob of a backup is at \<^verbatim>\<open><prefix>/basebackup/<name>\<close> (section 6).
\<close>

datatype BaseBackupFormat = v1 | v2 | delta_v1 | delta_v2

text \<open>An entry of the listing: its name and the \<open>format\<close> of its metadata, if it has one.\<close>

record remote_basebackup =
  bb_name :: string
  bb_format :: "BaseBackupFormat option"

text \<open>
  What is read of a manifest: \<^verbatim>\<open>delta_stats.hashes\<close>, the list of the pairs of hex digest
  and content length, when the manifest has \<^verbatim>\<open>delta_stats\<close>.
\<close>

record manifest =
  delta_stats_hashes :: "(string \<times> nat) list option"

definition format_has_hashes :: "BaseBackupFormat option \<Rightarrow> bool" where
  "format_has_hashes f = (f = Some v2 \<or> f = Some delta_v1 \<or> f = Some delta_v2)"

definition basebackup_path :: "string \<Rightarrow> string \<Rightarrow> string" where
  "basebackup_path pfx nm = os_path_join pfx [''basebackup'', nm]"

text \<open>
  The loop over the listing, on the paths downloaded and the hashes merged so far;
  \<open>download\<close> is \<^verbatim>\<open>download_backup_meta_file\<close>. A later manifest overrides the length
  an earlier one gave for the same digest, as \<^verbatim>\<open>dict.update\<close> does.
\<close>

fun fetch_hashes_loop ::
    "(string \<Rightarrow> manifest) \<Rightarrow> string \<Rightarrow> remote_basebackup list
       \<Rightarrow> string list \<times> (string \<rightharpoonup> nat) \<Rightarrow> string list \<times> (string \<rightharpoonup> nat)" where
  "fetch_hashes_loop download pfx [] acc = acc"
| "fetch_hashes_loop download pfx (backup # rest) acc =
     (if \<not> format_has_hashes (bb_format backup)
      then fetch_hashes_loop download pfx rest acc
      else
        (let p = basebackup_path pfx (bb_name backup);
             meta = download p
         in case delta_stats_hashes meta of
              None \<Rightarrow> fetch_hashes_loop download pfx rest (fst acc @ [p], snd acc)
            | Some hs \<Rightarrow>
                fetch_hashes_loop download pfx rest (fst acc @ [p], snd acc ++ map_of hs)))"

definition fetch_all_data_files_hashes ::
    "(string \<Rightarrow> manifest) \<Rightarrow> string \<Rightarrow> remote_basebackup list
       \<Rightarrow> string list \<times> (string \<rightharpoonup> nat)" where
  "fetch_all_data_files_hashes download pfx backups =
     fetch_hashes_loop download pfx backups ([], Map.empty)"

subsection \<open>The values of \<^verbatim>\<open>test_fetch_all_data_files_hashes\<close>\<close>

definition hash_a :: string where
  "hash_a = ''8ee55c458dde7fd7ea43b946dfb3c9713a360280ee2927e600b9d6d4630ef3fd''"

definition hash_b :: string where
  "hash_b = ''7e0c70d50c0ccd9ca4cb8c6837fbfffb4ef7e885aa1c6370fcfc307541a03e27''"

definition hash_c :: string where
  "hash_c = ''7e0c70d50c0ccd9ca4cb8c6837fbfffb4ef7e885aa1c6370fcfc307541a03e28''"

definition fake_download_backup_meta_file :: "string \<Rightarrow> manifest" where
  "fake_download_backup_meta_file p =
     (if p = ''a/b/c/basebackup/backup2''
      then \<lparr>delta_stats_hashes = Some [(hash_a, 1636), (hash_b, 8192)]\<rparr>
      else if p = ''a/b/c/basebackup/backup3''
      then \<lparr>delta_stats_hashes = Some [(hash_a, 1636), (hash_c, 800)]\<rparr>
      else if p = ''a/b/c/basebackup/backup4''
      then \<lparr>delta_stats_hashes = Some []\<rparr>
      else \<lparr>delta_stats_hashes = None\<rparr>)"

definition test_remote_basebackups :: "remote_basebackup list" where
  "test_remote_basebackups =
     [\<lparr>bb_name = ''backup0'', bb_format = Some v1\<rparr>,
      \<lparr>bb_name = ''backup1'', bb_format = Some v2\<rparr>,
      \<lparr>bb_name = ''backup2'', bb_format = Some v2\<rparr>,
      \<lparr>bb_name = ''backup3'', bb_format = Some v2\<rparr>,
      \<lparr>bb_name = ''backup4'', bb_format = Some delta_v1\<rparr>,
      \<lparr>bb_name = ''backup5'', bb_format = Some delta_v2\<rparr>]"

section \<open>The backup label\<close>

text \<open>
  Modelled from the spec: \<^verbatim>\<open>PGBaseBackup.parse_backup_label\<close> and
  \<^verbatim>\<open>parse_backup_label_in_tar\<close> belong to \<^verbatim>\<open>pghoard/basebackup/base.py\<close>, which is not
  among the sources; only their test \<^verbatim>\<open>test_parse_backup_label\<close> is. Section 6: given a
  tar file or a textual label, extract \<^verbatim>\<open>START WAL LOCATION: <lsn> (file <segment>)\<close> and
  \<^verbatim>\<open>START TIME: <iso-ish datetime>\<close> and return the segment and the time in ISO 8601,
  in UTC. A start time is a date, a time of day and a zone, as the database server writes
  it; the value is read as a \<^verbatim>\<open>datetime\<close>, moved to UTC and written with
  \<^verbatim>\<open>isoformat\<close>. A line that does not have this shape, a date that does not exist and
  a label or an archive without these lines are failures.
\<close>

definition starts_with :: "string \<Rightarrow> string \<Rightarrow> bool" where
  "starts_with p s = (take (length p) s = p)"

definition words_of :: "string \<Rightarrow> string list" where
  "words_of s = filter (\<lambda>w. w \<noteq> []) (split_on (CHR '' '') s)"

definition lines_of :: "string \<Rightarrow> string list" where
  "lines_of s = split_on (CHR 0x0A) s"

text \<open>\<^verbatim>\<open>START WAL LOCATION: <lsn> (file <segment>)\<close>\<close>

definition wal_segment_of_line :: "string \<Rightarrow> string option" where
  "wal_segment_of_line line =
     (case words_of line of
        [w1, w2, w3, lsn, w5, w6] \<Rightarrow>
          if w5 = ''(file'' \<and> w6 \<noteq> [] \<and> last w6 = CHR '')'' then Some (butlast w6) else None
      | _ \<Rightarrow> None)"

subsection \<open>Numbers and dates\<close>

text \<open>A field of a date or of a time of day: decimal digits, at least one.\<close>

definition is_digit :: "char \<Rightarrow> bool" where
  "is_digit c = (c \<in> set ''0123456789'')"

definition digit_value :: "char \<Rightarrow> nat" where
  "digit_value c = of_char c - 48"

definition nat_of_string :: "string \<Rightarrow> nat option" where
  "nat_of_string s =
     (if s \<noteq> [] \<and> list_all is_digit s
      then Some (foldl (\<lambda>a c. 10 * a + digit_value c) 0 s)
      else None)"

definition leap_year :: "nat \<Rightarrow> bool" where
  "leap_year y = (if y mod 100 = 0 then y mod 400 = 0 else y mod 4 = 0)"

definition days_in_month :: "nat \<Rightarrow> nat \<Rightarrow> nat" where
  "days_in_month y m =
     (if m = 2 then (if leap_year y then 29 else 28)
      else if m = 4 \<or> m = 6 \<or> m = 9 \<or> m = 11 then 30
      else 31)"

text \<open>The values that the constructor of \<^verbatim>\<open>datetime\<close> accepts.\<close>

definition valid_datetime :: "datetime \<Rightarrow> bool" where
  "valid_datetime d =
     (1 \<le> dt_year d \<and> dt_year d \<le> 9999 \<and> 1 \<le> dt_month d \<and> dt_month d \<le> 12 \<and>
      1 \<le> dt_day d \<and> dt_day d \<le> days_in_month (dt_year d) (dt_month d) \<and>
      dt_hour d < 24 \<and> dt_minute d < 60 \<and> dt_second d < 60)"

subsection \<open>Zones\<close>

text \<open>
  A numeric zone: a sign, two digits for the hours and, with or without a colon, two
  digits for the minutes, which may be left out.
\<close>

definition numeric_offset :: "string \<Rightarrow> int option" where
  "numeric_offset z =
     (case z of
        [] \<Rightarrow> None
      | sign # rest \<Rightarrow>
          if sign \<noteq> CHR ''+'' \<and> sign \<noteq> CHR ''-'' then None
          else
            (let ds = filter (\<lambda>c. c \<noteq> CHR '':'') rest in
             if length ds \<noteq> 2 \<and> length ds \<noteq> 4 then None
             else
               (case (nat_of_string (take 2 ds),
                      if length ds = 2 then Some 0 else nat_of_string (drop 2 ds)) of
                  (Some hh, Some mm) \<Rightarrow>
                    if hh < 24 \<and> mm < 60
                    then Some ((if sign = CHR ''-'' then - 1 else 1) *
                               (int hh * 3600 + int mm * 60))
                    else None
                | _ \<Rightarrow> None)))"

text \<open>
  The offset of a zone in seconds east of UTC: \<^verbatim>\<open>GMT\<close>, \<^verbatim>\<open>UTC\<close> and \<^verbatim>\<open>Z\<close> are UTC, a
  numeric zone is its own offset, and any other name is looked up in \<open>zones\<close>, the
  names that the machine knows. An offset is less than a day.
\<close>

definition zone_offset :: "(string \<Rightarrow> int option) \<Rightarrow> string \<Rightarrow> int option" where
  "zone_offset zones z =
     (if z = ''GMT'' \<or> z = ''UTC'' \<or> z = ''Z'' then Some 0
      else
        (case numeric_offset z of
           Some off \<Rightarrow> Some off
         | None \<Rightarrow>
             (case zones z of
                None \<Rightarrow> None
              | Some off \<Rightarrow> if - 86400 < off \<and> off < 86400 then Some off else None)))"

subsection \<open>The move to UTC\<close>

definition previous_day :: "nat \<times> nat \<times> nat \<Rightarrow> nat \<times> nat \<times> nat" where
  "previous_day ymd =
     (case ymd of (y, m, d) \<Rightarrow>
        if 1 < d then (y, m, d - 1)
        else if 1 < m then (y, m - 1, days_in_month y (m - 1))
        else (y - 1, 12, 31))"

definition next_day :: "nat \<times> nat \<times> nat \<Rightarrow> nat \<times> nat \<times> nat" where
  "next_day ymd =
     (case ymd of (y, m, d) \<Rightarrow>
        if d < days_in_month y m then (y, m, d + 1)
        else if m < 12 then (y, m + 1, 1)
        else (y + 1, 1, 1))"

text \<open>
  \<^verbatim>\<open>dt.astimezone(datetime.timezone.utc)\<close> for an aware value: the same instant with
  the offset zero. The offset is less than a day, so the date moves by one day at most.
\<close>

definition to_utc :: "datetime \<Rightarrow> datetime" where
  "to_utc d =
     (case dt_utcoffset d of
        None \<Rightarrow> d
      | Some off \<Rightarrow>
          (let s = int (dt_hour d * 3600 + dt_minute d * 60 + dt_second d) - off;
               ymd = (dt_year d, dt_month d, dt_day d);
               ymd' = (if s < 0 then previous_day ymd
                       else if 86400 \<le> s then next_day ymd
                       else ymd);
               t = nat (s mod 86400)
           in d\<lparr>dt_year := fst ymd', dt_month := fst (snd ymd'), dt_day := snd (snd ymd'),
                dt_hour := t div 3600, dt_minute := t mod 3600 div 60, dt_second := t mod 60,
                dt_utcoffset := Some 0\<rparr>))"

text \<open>\<^verbatim>\<open>START TIME: <date> <time> <zone>\<close>, the text after the colon.\<close>

definition iso_utc_of_start_time :: "(string \<Rightarrow> int option) \<Rightarrow> string \<Rightarrow> string option" where
  "iso_utc_of_start_time zones s =
     (case words_of s of
        [d, t, z] \<Rightarrow>
          (case (map nat_of_string (split_on (CHR ''-'') d),
                 map nat_of_string (split_on (CHR '':'') t),
                 zone_offset zones z) of
             ([Some y, Some mo, Some day], [Some h, Some mi, Some sec], Some off) \<Rightarrow>
               (let dt = \<lparr>dt_year = y, dt_month = mo, dt_day = day, dt_hour = h,
                          dt_minute = mi, dt_second = sec, dt_microsecond = 0,
                          dt_utcoffset = Some off\<rparr>
                in if valid_datetime dt \<and> valid_datetime (to_utc dt)
                   then Some (isoformat (CHR ''T'') (to_utc dt))
                   else None)
           | _ \<Rightarrow> None)
      | _ \<Rightarrow> None)"

subsection \<open>The label\<close>

text \<open>
  The lines of the label in order: the state is the segment and the time found so far,
  \<open>None\<close> as a whole once a line has failed.
\<close>

fun scan_label ::
    "(string \<Rightarrow> int option) \<Rightarrow> string list \<Rightarrow> string option \<times> string option
       \<Rightarrow> (string option \<times> string option) option" where
  "scan_label zones [] found = Some found"
| "scan_label zones (line # rest) found =
     (if starts_with ''START WAL LOCATION: '' line
      then (case wal_segment_of_line line of
              None \<Rightarrow> None
            | Some seg \<Rightarrow> scan_label zones rest (Some seg, snd found))
      else if starts_with ''START TIME: '' line
      then (case iso_utc_of_start_time zones (drop (length ''START TIME: '') line) of
              None \<Rightarrow> None
            | Some t \<Rightarrow> scan_label zones rest (fst found, Some t))
      else scan_label zones rest found)"

definition parse_backup_label ::
    "(string \<Rightarrow> int option) \<Rightarrow> string \<Rightarrow> (string \<times> string) option" where
  "parse_backup_label zones backup_label_data =
     (case scan_label zones (lines_of backup_label_data) (None, None) of
        Some (Some start_wal_segment, Some start_time) \<Rightarrow> Some (start_wal_segment, start_time)
      | _ \<Rightarrow> None)"

subsection \<open>The archive\<close>

text \<open>
  A tar archive: its members, name and content, in the order of the archive.
  \<^verbatim>\<open>TarFile.add\<close> appends a member, and \<^verbatim>\<open>TarFile.extractfile\<close> reads the last member
  of the name it is given. The label is the member \<^verbatim>\<open>backup_label\<close>, which is the first
  file of an archive that the database server writes and the only member of the archive
  of the test.
\<close>

type_synonym tar = "(string \<times> string) list"

definition tar_add :: "tar \<Rightarrow> string \<Rightarrow> string \<Rightarrow> tar" where
  "tar_add archive arcname content = archive @ [(arcname, content)]"

definition tar_extractfile :: "tar \<Rightarrow> string \<Rightarrow> string option" where
  "tar_extractfile archive member = map_of (rev archive) member"

definition parse_backup_label_in_tar ::
    "(string \<Rightarrow> int option) \<Rightarrow> tar \<Rightarrow> (string \<times> string) option" where
  "parse_backup_label_in_tar zones archive =
     (case tar_extractfile archive ''backup_label'' of
        None \<Rightarrow> None
      | Some content \<Rightarrow> parse_backup_label zones content)"

subsection \<open>The label of \<^verbatim>\<open>test_parse_backup_label\<close>\<close>

definition test_backup_label :: string where
  "test_backup_label =
     ''START WAL LOCATION: 0/4000028 (file 000000010000000000000004)'' @ [CHR 0x0A] @
     ''CHECKPOINT LOCATION: 0/4000060'' @ [CHR 0x0A] @
     ''BACKUP METHOD: streamed'' @ [CHR 0x0A] @
     ''BACKUP FROM: master'' @ [CHR 0x0A] @
     ''START TIME: 2015-02-12 14:07:19 GMT'' @ [CHR 0x0A] @
     ''LABEL: pg_basebackup base backup'' @ [CHR 0x0A]"

text \<open>No zone names beyond the built-in ones.\<close>

definition no_zones :: "string \<Rightarrow> int option" where
  "no_zones z = None"

text \<open>A machine that knows the zone \<^verbatim>\<open>EET\<close>, two hours east of UTC.\<close>

definition eet_zones :: "string \<Rightarrow> int option" where
  "eet_zones z = (if z = ''EET'' then Some 7200 else None)"

section \<open>The scheduler\<close>

text \<open>
  Modelled from the spec: \<^verbatim>\<open>PGHoard.get_new_backup_details\<close> belongs to
  \<^verbatim>\<open>pghoard/pghoard.py\<close>, which is not among the sources; only its test
  \<^verbatim>\<open>test_get_new_backup_details\<close> is. Section 4.F gives the algorithm: the inputs, the
  normalized time, the most recent entry and the decision. A time is a number of seconds
  since the epoch, in UTC; the interval \<^verbatim>\<open>basebackup_interval_hours\<close> is kept in seconds,
  so that 1.5 hours is 5400.

  Where the section and the test disagree the model follows the test. Step 4 of the
  section asks for a whole interval since the start of the last backup. The test, with
  an interval of twelve hours, expects no backup two hours after the decision of the
  last scheduled backup and a backup eight hours after it (lines 797 to 809), also when
  a requested backup has started one hour ago (lines 811 to 823). So the floor counts
  from the decision time of the most recent scheduled backup, backups made on request
  do not count for it, and it is half an interval, which lies between the two values
  that the test fixes. The normalized time is compared with that of the most recent entry
  of any reason, as in step 4 and in lines 825 to 828 of the test.
\<close>

datatype BackupReason = scheduled | requested

record site_config =
  basebackup_hour :: "nat option"
  basebackup_minute :: "nat option"
  basebackup_interval :: int

text \<open>What the decision reads of an existing backup entry.\<close>

record backup_entry =
  entry_start_time :: int
  entry_decision_time :: int
  entry_reason :: BackupReason
  entry_normalized_backup_time :: "int option"

text \<open>The metadata stub of a new backup.\<close>

record backup_details =
  backup_reason :: BackupReason
  backup_decision_time :: int
  normalized_backup_time :: "int option"

text \<open>
  Step 2: the latest instant at the configured hour and minute of a day that is not
  after \<open>now\<close>, moved forward by as many whole intervals as fit before \<open>now\<close>; no
  normalized time without a schedule.
\<close>

definition normalized_time :: "site_config \<Rightarrow> int \<Rightarrow> int option" where
  "normalized_time cfg now =
     (case (basebackup_hour cfg, basebackup_minute cfg) of
        (Some h, Some m) \<Rightarrow>
          (let t = int h * 3600 + int m * 60;
               midnight = now - now mod 86400;
               anchor = (if t \<le> now mod 86400 then midnight + t else midnight - 86400 + t);
               i = basebackup_interval cfg
           in Some (if 0 < i then anchor + ((now - anchor) div i) * i else anchor))
      | _ \<Rightarrow> None)"

text \<open>Step 3: the most recent entry is the one that started last.\<close>

fun most_recent :: "backup_entry list \<Rightarrow> backup_entry option" where
  "most_recent [] = None"
| "most_recent (b # bs) =
     (case most_recent bs of
        None \<Rightarrow> Some b
      | Some c \<Rightarrow> if entry_start_time b \<le> entry_start_time c then Some c else Some b)"

text \<open>
  The floor of step 4: no scheduled backup so far, or half an interval has passed since
  the most recent one was decided.
\<close>

definition last_scheduled_isnt_too_recent :: "site_config \<Rightarrow> int \<Rightarrow> backup_entry list \<Rightarrow> bool" where
  "last_scheduled_isnt_too_recent cfg now basebackups =
     (case most_recent (filter (\<lambda>b. entry_reason b = scheduled) basebackups) of
        None \<Rightarrow> True
      | Some b \<Rightarrow> basebackup_interval cfg \<le> 2 * (now - entry_decision_time b))"

text \<open>
  Steps 1, 4 and 5. The result is the stub of the backup to start, if one is to start,
  and the manual trigger afterwards.
\<close>

definition get_new_backup_details ::
    "site_config \<Rightarrow> int \<Rightarrow> backup_entry list \<Rightarrow> bool \<Rightarrow> bool \<Rightarrow> backup_details option \<times> bool" where
  "get_new_backup_details cfg now basebackups running manual_trigger =
     (if running then (None, manual_trigger)
      else
        (let normalized = normalized_time cfg now in
         if manual_trigger
         then (Some \<lparr>backup_reason = requested, backup_decision_time = now,
                     normalized_backup_time = normalized\<rparr>, False)
         else
           (case most_recent basebackups of
              None \<Rightarrow>
                (Some \<lparr>backup_reason = scheduled, backup_decision_time = now,
                       normalized_backup_time = normalized\<rparr>, False)
            | Some last_backup \<Rightarrow>
                if normalized \<noteq> entry_normalized_backup_time last_backup \<and>
                   last_scheduled_isnt_too_recent cfg now basebackups
                then (Some \<lparr>backup_reason = scheduled, backup_decision_time = now,
                            normalized_backup_time = normalized\<rparr>, False)
                else (None, False))))"

text \<open>The time of day of an instant as the end of its ISO format in UTC.\<close>

definition time_of_day_iso :: "int \<Rightarrow> string" where
  "time_of_day_iso t =
     (let s = nat (t mod 86400)
      in ''T'' @ zpad 2 (s div 3600) @ '':'' @ zpad 2 (s mod 3600 div 60) @ '':'' @
         zpad 2 (s mod 60) @ ''+00:00'')"

subsection \<open>The values of \<^verbatim>\<open>test_get_new_backup_details\<close>\<close>

text \<open>
  The sites of the test: no schedule and the default interval of a day; 13:10 with that
  interval; 13:10 with an interval of 1.5 hours; 14:50 with an interval of 12 hours.
\<close>

definition test_site_config_unscheduled :: site_config where
  "test_site_config_unscheduled =
     \<lparr>basebackup_hour = None, basebackup_minute = None, basebackup_interval = 86400\<rparr>"

definition test_site_config_daily :: site_config where
  "test_site_config_daily =
     \<lparr>basebackup_hour = Some 13, basebackup_minute = Some 10, basebackup_interval = 86400\<rparr>"

definition test_site_config :: site_config where
  "test_site_config =
     \<lparr>basebackup_hour = Some 13, basebackup_minute = Some 10, basebackup_interval = 5400\<rparr>"

definition test_site_config_12 :: site_config where
  "test_site_config_12 =
     \<lparr>basebackup_hour = Some 14, basebackup_minute = Some 50, basebackup_interval = 43200\<rparr>"

text \<open>
  The backup \<^verbatim>\<open>name01\<close> that the test adds on the day \<open>d\<close>: scheduled, decided and started
  one hour before 15:20:30, with the normalized time 14:40:00.
\<close>

definition test_last_backup :: "int \<Rightarrow> backup_entry" where
  "test_last_backup d =
     \<lparr>entry_start_time = 86400 * d + 55230 - 3600,
      entry_decision_time = 86400 * d + 55230 - 3600,
      entry_reason = scheduled,
      entry_normalized_backup_time = Some (86400 * d + 52800)\<rparr>"

text \<open>
  The backup \<^verbatim>\<open>name02\<close>: made on request, started one hour before 22:20:30, with the
  normalized time \<open>n\<close>.
\<close>

definition test_requested_backup :: "int \<Rightarrow> int option \<Rightarrow> backup_entry" where
  "test_requested_backup d n =
     \<lparr>entry_start_time = 86400 * d + 55230 + 25200 - 3600,
      entry_decision_time = 86400 * d + 55230 - 3600,
      entry_reason = requested,
      entry_normalized_backup_time = n\<rparr>"

section \<open>The files to back up and their chunks\<close>

text \<open>
  Modelled from the spec: \<^verbatim>\<open>PGBaseBackup.find_files_to_backup\<close> and
  \<^verbatim>\<open>find_and_split_files_to_backup\<close> belong to \<^verbatim>\<open>pghoard/basebackup/base.py\<close>, which
  is not among the sources; only their tests are. Section 4.C gives the walker (depth
  first, a directory before its contents, siblings in lexical order, \<open>missing_ok\<close> false
  exactly for the entries directly under the root), section 4.C.1 the splitting (file
  sizes accumulate up to the target, a directory counts as zero, a new chunk starts with
  the directories that are open), scenario S1 the expected chunks. The tests show that
  the walker marks an entry with an operation and that one of them is \<open>leave\<close>. The
  tablespaces and the exclusion list are left out: the tree is what is left to back up,
  under the data directory only. A file larger than the target, of which the spec says
  nothing, goes into a chunk of its own directories and itself.
\<close>

text \<open>A tree of the data directory: a file with its size, a directory with its contents.\<close>

datatype fs_node = File string nat | Dir string "fs_node list"

fun node_name :: "fs_node \<Rightarrow> string" where
  "node_name (File n sz) = n"
| "node_name (Dir n children) = n"

text \<open>
  An entry: the path in the archive and the local path, as lists of components, the
  flag \<open>missing_ok\<close>, whether it is a directory, and the size that counts for the chunk.
\<close>

record entry =
  archive_path :: "string list"
  local_path :: "string list"
  missing_ok :: bool
  is_dir :: bool
  file_size :: nat

datatype event = Enter entry | Add entry | Leave

text \<open>
  The walk below the directory with archive path \<open>a\<close> and local path \<open>l\<close>; \<open>at_root\<close>
  says that this directory is the root.
\<close>

fun walk :: "bool \<Rightarrow> string list \<Rightarrow> string list \<Rightarrow> fs_node \<Rightarrow> event list" where
  "walk at_root a l (File n sz) =
     [Add \<lparr>archive_path = a @ [n], local_path = l @ [n], missing_ok = (\<not> at_root),
           is_dir = False, file_size = sz\<rparr>]"
| "walk at_root a l (Dir n children) =
     [Enter \<lparr>archive_path = a @ [n], local_path = l @ [n], missing_ok = (\<not> at_root),
             is_dir = True, file_size = 0\<rparr>] @
     concat (map (walk False (a @ [n]) (l @ [n])) (sort_key node_name children)) @
     [Leave]"

definition find_files_to_backup :: "string list \<Rightarrow> string list \<Rightarrow> fs_node list \<Rightarrow> event list" where
  "find_files_to_backup root pgdata nodes =
     concat (map (walk True root pgdata) (sort_key node_name nodes))"

text \<open>
  The state of the splitting: the chunks that are closed, the chunk being filled and the
  sum of its file sizes, the directories entered and not yet left, the number of entries
  seen.
\<close>

record split_state =
  chunks :: "entry list list"
  one_chunk_files :: "entry list"
  one_chunk_size :: nat
  entered_folders :: "entry list"
  total_file_count :: nat

definition start_new_chunk :: "split_state \<Rightarrow> split_state" where
  "start_new_chunk st =
     st\<lparr>chunks := chunks st @ [one_chunk_files st],
        one_chunk_files := entered_folders st,
        one_chunk_size := 0\<rparr>"

fun split_step :: "nat \<Rightarrow> split_state \<Rightarrow> event \<Rightarrow> split_state" where
  "split_step target st Leave = st\<lparr>entered_folders := butlast (entered_folders st)\<rparr>"
| "split_step target st (Enter e) =
     st\<lparr>entered_folders := entered_folders st @ [e],
        one_chunk_files := one_chunk_files st @ [e],
        total_file_count := total_file_count st + 1\<rparr>"
| "split_step target st (Add e) =
     (let st' = (if target < one_chunk_size st + file_size e \<and> 0 < one_chunk_size st
                 then start_new_chunk st else st)
      in st'\<lparr>one_chunk_files := one_chunk_files st' @ [e],
             one_chunk_size := one_chunk_size st' + file_size e,
             total_file_count := total_file_count st' + 1\<rparr>)"

definition split_start :: split_state where
  "split_start =
     \<lparr>chunks = [], one_chunk_files = [], one_chunk_size = 0, entered_folders = [],
      total_file_count = 0\<rparr>"

definition find_and_split_files_to_backup ::
    "string list \<Rightarrow> string list \<Rightarrow> fs_node list \<Rightarrow> nat \<Rightarrow> nat \<times> entry list list" where
  "find_and_split_files_to_backup root pgdata nodes target_chunk_size =
     (let st = foldl (split_step target_chunk_size) split_start
                 (find_files_to_backup root pgdata nodes)
      in (total_file_count st,
          chunks st @ (if one_chunk_files st = [] then [] else [one_chunk_files st])))"

text \<open>The archive path as the tests read it, with \<^verbatim>\<open>/\<close> between the components.\<close>

fun join_path :: "string list \<Rightarrow> string" where
  "join_path [] = []"
| "join_path [c] = c"
| "join_path (c # cs) = c @ ''/'' @ join_path cs"

text \<open>
  A chunk is self-contained below \<open>root\<close> when every ancestor directory of every entry,
  up to the root, is a directory entry earlier in the chunk.
\<close>

definition self_contained :: "string list \<Rightarrow> entry list \<Rightarrow> bool" where
  "self_contained root c =
     (\<forall>i \<in> {..<length c}. \<forall>k \<in> {length root <..< length (archive_path (c ! i))}.
        \<exists>j \<in> {..<i}. is_dir (c ! j) \<and> archive_path (c ! j) = take k (archive_path (c ! i)))"

text \<open>
  The directories entered on the way from \<open>root\<close> to the directory \<open>q\<close>, outermost
  first.
\<close>

definition stack_for :: "string list \<Rightarrow> string list \<Rightarrow> entry list \<Rightarrow> bool" where
  "stack_for root q stk =
     (length root \<le> length q \<and> length stk = length q - length root \<and>
      (\<forall>i \<in> {..<length stk}.
         is_dir (stk ! i) \<and> archive_path (stk ! i) = take (length root + 1 + i) q))"

definition split_inv :: "string list \<Rightarrow> string list \<Rightarrow> split_state \<Rightarrow> bool" where
  "split_inv root q st =
     (stack_for root q (entered_folders st) \<and>
      set (entered_folders st) \<subseteq> set (one_chunk_files st) \<and>
      self_contained root (one_chunk_files st) \<and>
      (\<forall>c \<in> set (chunks st). self_contained root c))"

subsection \<open>The tree of \<^verbatim>\<open>test_find_and_split_files_to_backup\<close>\<close>

definition split_tree :: "fs_node list" where
  "split_tree =
     [Dir ''split_top''
        [File ''f1'' 50000, File ''f2'' 50000, File ''f3'' 50000,
         Dir ''split_sub'' [File ''f1'' 50000, File ''f2'' 50000, File ''f3'' 50000]]]"

text \<open>The entries of that tree: a directory and a file of 50000 bytes below the root.\<close>

definition split_dir :: "string list \<Rightarrow> entry" where
  "split_dir p =
     \<lparr>archive_path = ''pgdata'' # p, local_path = ''tmp'' # ''pgdata'' # p,
      missing_ok = (length p \<noteq> 1), is_dir = True, file_size = 0\<rparr>"

definition split_file :: "string list \<Rightarrow> entry" where
  "split_file p =
     \<lparr>archive_path = ''pgdata'' # p, local_path = ''tmp'' # ''pgdata'' # p,
      missing_ok = (length p \<noteq> 1), is_dir = False, file_size = 50000\<rparr>"

section \<open>Preservation requests\<close>

subsection \<open>Paths and names\<close>

lemma split_on_no_sep: "w \<in> set (split_on d s) \<Longrightarrow> d \<notin> set w"
proof (induction s arbitrary: w)
  case Nil
  then show ?case by simp
next
  case (Cons c cs)
  show ?case
  proof (cases "c = d")
    case True
    with Cons show ?thesis by auto
  next
    case False
    obtain v vs where sp: "split_on d cs = v # vs"
      by (cases "split_on d cs") (cases cs; simp split: if_splits list.splits)+
    with Cons False show ?thesis by auto
  qed
qed

lemma path_name_no_slash: "CHR ''/'' \<notin> set (path_name s)"
proof (cases "path_parts s")
  case Nil
  then show ?thesis by (simp add: path_name_def)
next
  case (Cons p ps)
  have "last (path_parts s) \<in> set (path_parts s)"
    using Cons by (intro last_in_set) simp
  then have "last (path_parts s) \<in> set (split_on (CHR ''/'') s)"
    by (simp add: path_parts_def)
  then have "CHR ''/'' \<notin> set (last (path_parts s))"
    by (rule split_on_no_sep)
  then show ?thesis using Cons by (simp add: path_name_def)
qed

lemma request_name_head: "hd (path_name n @ ''_'' @ s) \<noteq> CHR ''/''"
  using path_name_no_slash [of n] by (cases "path_name n") auto

lemma request_path_plain:
  assumes "p \<noteq> []" "last p \<noteq> CHR ''/''" "rn \<noteq> []" "hd rn \<noteq> CHR ''/''"
  shows "os_path_join p [''preservation_request'', rn] = p @ ''/preservation_request/'' @ rn"
  using assms by (simp add: os_path_join_def join_step_def)

lemma request_path_of_plain:
  assumes "prefix self \<noteq> []" "last (prefix self) \<noteq> CHR ''/''"
  shows "request_path_of self (path_name n @ ''_'' @ s) =
         prefix self @ ''/preservation_request/'' @ path_name n @ ''_'' @ s"
  unfolding request_path_of_def
  using assms request_name_head [of n s] by (intro request_path_plain) simp_all

subsection \<open>What a request does\<close>

lemma request_backup_preservation_general:
  fixes self :: "(string, 'd) BaseBackupInfoFromBucket"
  assumes "available st"
  shows "request_backup_preservation self preserve_until st =
           Inr (path_name (name self) @ ''_'' @ str_datetime preserve_until,
                st\<lparr>objects := AList.update
                  (request_path_of self (path_name (name self) @ ''_'' @ str_datetime preserve_until))
                  ([], [(''preserve-backup'', path_name (name self)),
                        (''preserve-until'', str_datetime preserve_until)]) (objects st)\<rparr>)"
  using assms
  by (simp add: request_backup_preservation_def store_file_from_memory_def Let_def
      available_def)

lemma request_backup_preservation_InrD:
  fixes self :: "(string, 'd) BaseBackupInfoFromBucket"
  assumes "request_backup_preservation self preserve_until st = Inr (rn, st')"
  shows "available st"
    and "rn = path_name (name self) @ ''_'' @ str_datetime preserve_until"
    and "st' = st\<lparr>objects := AList.update (request_path_of self rn)
                  ([], [(''preserve-backup'', path_name (name self)),
                        (''preserve-until'', str_datetime preserve_until)]) (objects st)\<rparr>"
  using assms
  by (auto simp add: request_backup_preservation_def store_file_from_memory_def Let_def
      available_def split: option.splits)



lemma request_backup_preservation_InlD:
  "request_backup_preservation self preserve_until st = Inl e \<Longrightarrow> fault st = Some e"
  by (auto simp add: request_backup_preservation_def store_file_from_memory_def Let_def
      split: option.splits)

lemma cancel_backup_preservation_InlD:
  "cancel_backup_preservation self rn st = Inl e \<Longrightarrow>
     fault st = Some e \<or> e = FileNotFoundFromStorageError"
  by (auto simp add: cancel_backup_preservation_def delete_key_def
      split: option.splits if_splits)

lemmas eval_request =
  request_backup_preservation_def store_file_from_memory_def Let_def
  request_path_of_def os_path_join_def join_step_def path_name_def path_parts_def
  str_datetime_def isoformat_def zpad_def show_nat.simps digit_char_def format_offset_def
  test_store_def test_until_def test_storage_def unreadable_storage_def

lemma request_backup_preservation_test:
  "request_backup_preservation test_store test_until test_storage =
     Inr (''2022_12_10_2022-12-18 10:20:30.123456+00:00'',
          \<lparr>objects =
             [(''site_name/preservation_request/2022_12_10_2022-12-18 10:20:30.123456+00:00'',
               [], [(''preserve-backup'', ''2022_12_10''),
                    (''preserve-until'', ''2022-12-18 10:20:30.123456+00:00'')])],
           fault = None\<rparr>)"
  by (simp add: eval_request)

text \<open>
  Claim C1, as the code has it. When the store accepts the write and the site prefix
  \<open>p\<close> is not empty and does not end with a slash, \<open>request_backup_preservation\<close> on
  an entry with manifest key \<open>n\<close> returns the leaf name
  \<open>basename n @ ''_'' @ str preserve_until\<close>, and afterwards the store holds, at the key
  \<open>p @ ''/preservation_request/'' @\<close> that leaf name, a zero-length blob whose metadata
  is exactly \<open>preserve-backup = basename n\<close> and \<open>preserve-until = str preserve_until\<close>,
  every other key being as before. For the name \<open>2022_12_10\<close>, the prefix \<open>site_name\<close>
  and 2022-12-18T10:20:30.123456+00:00 the stored \<open>preserve-until\<close> is the string
  \<open>2022-12-18 10:20:30.123456+00:00\<close>.
\<close>

theorem request_backup_preservation_stores:
  fixes self :: "(string, 'd) BaseBackupInfoFromBucket"
  assumes "available st" and "prefix self \<noteq> []" and "last (prefix self) \<noteq> CHR ''/''"
  shows "(\<exists>st'. request_backup_preservation self preserve_until st =
                  Inr (path_name (name self) @ ''_'' @ str_datetime preserve_until, st')
           \<and> map_of (objects st')
                (prefix self @ ''/preservation_request/'' @ path_name (name self) @ ''_'' @
                 str_datetime preserve_until) =
               Some ([], [(''preserve-backup'', path_name (name self)),
                          (''preserve-until'', str_datetime preserve_until)])
           \<and> (\<forall>k. k \<noteq> prefix self @ ''/preservation_request/'' @ path_name (name self) @ ''_'' @
                        str_datetime preserve_until \<longrightarrow>
                 map_of (objects st') k = map_of (objects st) k))
       \<and> request_backup_preservation test_store test_until test_storage =
           Inr (''2022_12_10_2022-12-18 10:20:30.123456+00:00'',
                \<lparr>objects =
                   [(''site_name/preservation_request/2022_12_10_2022-12-18 10:20:30.123456+00:00'',
                     [], [(''preserve-backup'', ''2022_12_10''),
                          (''preserve-until'', ''2022-12-18 10:20:30.123456+00:00'')])],
                 fault = None\<rparr>)"
proof (rule conjI)
  let ?rn = "path_name (name self) @ ''_'' @ str_datetime preserve_until"
  have key: "request_path_of self ?rn = prefix self @ ''/preservation_request/'' @ ?rn"
    using assms(2,3) by (rule request_path_of_plain)
  show "\<exists>st'. request_backup_preservation self preserve_until st = Inr (?rn, st')
           \<and> map_of (objects st') (prefix self @ ''/preservation_request/'' @ ?rn) =
               Some ([], [(''preserve-backup'', path_name (name self)),
                          (''preserve-until'', str_datetime preserve_until)])
           \<and> (\<forall>k. k \<noteq> prefix self @ ''/preservation_request/'' @ ?rn \<longrightarrow>
                 map_of (objects st') k = map_of (objects st) k)"
    unfolding request_backup_preservation_general [OF assms(1)] key
    by (simp add: update_conv')
next
  show "request_backup_preservation test_store test_until test_storage =
           Inr (''2022_12_10_2022-12-18 10:20:30.123456+00:00'',
                \<lparr>objects =
                   [(''site_name/preservation_request/2022_12_10_2022-12-18 10:20:30.123456+00:00'',
                     [], [(''preserve-backup'', ''2022_12_10''),
                          (''preserve-until'', ''2022-12-18 10:20:30.123456+00:00'')])],
                 fault = None\<rparr>)"
    by (rule request_backup_preservation_test)
qed

theorem request_backup_preservation_stores_witness:
  "available test_storage \<and> prefix test_store \<noteq> [] \<and> last (prefix test_store) \<noteq> CHR ''/'' \<and>
   (\<exists>st'. request_backup_preservation test_store test_until test_storage =
            Inr (''2022_12_10_2022-12-18 10:20:30.123456+00:00'', st')
      \<and> map_of (objects st')
           ''site_name/preservation_request/2022_12_10_2022-12-18 10:20:30.123456+00:00'' =
         Some ([], [(''preserve-backup'', ''2022_12_10''),
                    (''preserve-until'', ''2022-12-18 10:20:30.123456+00:00'')]))"
proof -
  have h1: "available test_storage" by (simp add: test_storage_def available_def)
  have h2: "prefix test_store \<noteq> []" by (simp add: test_store_def)
  have h3: "last (prefix test_store) \<noteq> CHR ''/''" by (simp add: test_store_def)
  have n: "path_name (name test_store) = ''2022_12_10''"
    by (simp add: eval_request)
  have s: "str_datetime test_until = ''2022-12-18 10:20:30.123456+00:00''"
    by (simp add: eval_request)
  have p: "prefix test_store = ''site_name''" by (simp add: test_store_def)
  from request_backup_preservation_stores [OF h1 h2 h3, of test_until]
  show ?thesis using h1 h2 h3 unfolding n s p by auto
qed

text \<open>
  The key is built by \<^verbatim>\<open>os.path.join\<close>, not by concatenation: with the prefix
  \<open>site_name/\<close> nothing is stored at \<open>site_name/\<close> followed by
  \<open>/preservation_request/...\<close>; the blob is at the key with a single slash.
\<close>

theorem request_key_counterexample:
  "request_backup_preservation
       \<lparr>name = ''2022_12_10'', data = (), site = [], prefix = ''site_name/''\<rparr>
       test_until test_storage =
     Inr (''2022_12_10_2022-12-18 10:20:30.123456+00:00'',
          \<lparr>objects =
             [(''site_name/preservation_request/2022_12_10_2022-12-18 10:20:30.123456+00:00'',
               [], [(''preserve-backup'', ''2022_12_10''),
                    (''preserve-until'', ''2022-12-18 10:20:30.123456+00:00'')])],
           fault = None\<rparr>)
   \<and> ''site_name/preservation_request/2022_12_10_2022-12-18 10:20:30.123456+00:00'' \<noteq>
       ''site_name/'' @ ''/preservation_request/'' @ ''2022_12_10'' @ ''_'' @
       ''2022-12-18 10:20:30.123456+00:00''"
  by (simp add: eval_request)

text \<open>
  Claim C2. Whenever \<open>request_backup_preservation\<close> has returned a request name,
  \<open>cancel_backup_preservation\<close> with that name succeeds and deletes the blob the
  request created and nothing else: the store is the one before the request with that
  key absent, and the listing of the \<open>preservation_request\<close> prefix has no entry for it.
\<close>

theorem cancel_after_request_removes_blob:
  fixes self :: "(string, 'd) BaseBackupInfoFromBucket"
  assumes "request_backup_preservation self preserve_until st = Inr (rn, st')"
  shows "\<exists>st''. cancel_backup_preservation self rn st' = Inr st''
           \<and> map_of (objects st'') = (map_of (objects st')) (request_path_of self rn := None)
           \<and> map_of (objects st'') = (map_of (objects st)) (request_path_of self rn := None)
           \<and> request_path_of self rn \<notin>
                fst ` set (list_path st'' (os_path_join (prefix self) [''preservation_request'']))"
proof -
  note r = request_backup_preservation_InrD [OF assms]
  let ?k = "request_path_of self rn"
  let ?md = "([], [(''preserve-backup'', path_name (name self)),
                   (''preserve-until'', str_datetime preserve_until)])"
  let ?st'' = "st'\<lparr>objects := AList.delete ?k (objects st')\<rparr>"
  have present: "map_of (objects st') ?k \<noteq> None"
    by (subst r(3)) (simp add: update_conv')
  have avail: "available st'"
    using r(1) by (subst r(3)) (simp add: available_def)
  have c: "cancel_backup_preservation self rn st' = Inr ?st''"
    using present avail by (simp add: cancel_backup_preservation_def delete_key_def available_def)
  have m1: "map_of (objects ?st'') = (map_of (objects st')) (?k := None)"
    by (simp add: delete_conv')
  have "map_of (objects st') = (map_of (objects st)) (?k \<mapsto> ?md)"
    by (subst r(3)) (simp add: update_conv')
  then have m2: "map_of (objects ?st'') = (map_of (objects st)) (?k := None)"
    using m1 by simp
  have "?k \<notin> fst ` set (objects ?st'')"
    using m1 by (metis fun_upd_same map_of_eq_None_iff)
  then have "?k \<notin> fst ` set (list_path ?st''
                 (os_path_join (prefix self) [''preservation_request'']))"
    by (auto simp add: list_path_def)
  with c m1 m2 show ?thesis by blast
qed

theorem cancel_after_request_removes_blob_witness:
  "request_backup_preservation test_store test_until test_storage =
     Inr (''2022_12_10_2022-12-18 10:20:30.123456+00:00'',
          \<lparr>objects =
             [(''site_name/preservation_request/2022_12_10_2022-12-18 10:20:30.123456+00:00'',
               [], [(''preserve-backup'', ''2022_12_10''),
                    (''preserve-until'', ''2022-12-18 10:20:30.123456+00:00'')])],
           fault = None\<rparr>)
   \<and> (\<exists>st''. cancel_backup_preservation test_store
         ''2022_12_10_2022-12-18 10:20:30.123456+00:00''
         \<lparr>objects =
             [(''site_name/preservation_request/2022_12_10_2022-12-18 10:20:30.123456+00:00'',
               [], [(''preserve-backup'', ''2022_12_10''),
                    (''preserve-until'', ''2022-12-18 10:20:30.123456+00:00'')])],
           fault = None\<rparr> = Inr st''
        \<and> list_path st'' ''site_name/preservation_request'' = [])"
proof -
  note h = request_backup_preservation_test
  have j: "os_path_join (prefix test_store) [''preservation_request''] =
           ''site_name/preservation_request''"
    by (simp add: eval_request)
  from cancel_after_request_removes_blob [OF h] obtain st'' where
    c: "cancel_backup_preservation test_store
         ''2022_12_10_2022-12-18 10:20:30.123456+00:00''
         \<lparr>objects =
             [(''site_name/preservation_request/2022_12_10_2022-12-18 10:20:30.123456+00:00'',
               [], [(''preserve-backup'', ''2022_12_10''),
                    (''preserve-until'', ''2022-12-18 10:20:30.123456+00:00'')])],
           fault = None\<rparr> = Inr st''"
    by blast
  then have "list_path st'' ''site_name/preservation_request'' = []"
    by (auto simp add: cancel_backup_preservation_def delete_key_def list_path_def
        eval_request split: if_splits option.splits)
  with h c show ?thesis by blast
qed




section \<open>Listing over HTTP\<close>

lemma append_basebackups_named:
  assumes "\<And>b. b \<in> set bs \<Longrightarrow> map_of b ''name'' = Some (nm b)"
  shows "append_basebackups s (map JObj bs) result =
         Inr (result @ map (\<lambda>b. \<lparr>name = nm b, data = JObj b, site = s\<rparr>) bs)"
  using assms by (induction bs arbitrary: result) simp_all

lemma list_basebackups_loop_listing:
  assumes "\<And>s. s \<in> set ss \<Longrightarrow>
             \<exists>kvs. get (url self ''basebackup'' s) = Inr (JObj kvs) \<and>
                   map_of kvs ''basebackups'' = Some (JArr (map JObj (listing s)))"
    and "\<And>s b. s \<in> set ss \<Longrightarrow> b \<in> set (listing s) \<Longrightarrow> map_of b ''name'' = Some (nm b)"
  shows "list_basebackups_loop get self ss asked result =
         (asked @ map (url self ''basebackup'') ss,
          Inr (result @ concat (map (\<lambda>s. map (\<lambda>b. \<lparr>name = nm b, data = JObj b, site = s\<rparr>)
                                           (listing s)) ss)))"
  using assms
proof (induction ss arbitrary: asked result)
  case Nil
  then show ?case by simp
next
  case (Cons s ss)
  from Cons.prems(1) [of s] obtain kvs where
    g: "get (url self ''basebackup'' s) = Inr (JObj kvs)"
    and l: "map_of kvs ''basebackups'' = Some (JArr (map JObj (listing s)))"
    by auto
  have a: "append_basebackups s (map JObj (listing s)) result =
           Inr (result @ map (\<lambda>b. \<lparr>name = nm b, data = JObj b, site = s\<rparr>) (listing s))"
    by (rule append_basebackups_named) (use Cons.prems(2) [of s] in simp)
  have ih: "list_basebackups_loop get self ss (asked @ [url self ''basebackup'' s])
              (result @ map (\<lambda>b. \<lparr>name = nm b, data = JObj b, site = s\<rparr>) (listing s)) =
            ((asked @ [url self ''basebackup'' s]) @ map (url self ''basebackup'') ss,
             Inr ((result @ map (\<lambda>b. \<lparr>name = nm b, data = JObj b, site = s\<rparr>) (listing s)) @
                  concat (map (\<lambda>s. map (\<lambda>b. \<lparr>name = nm b, data = JObj b, site = s\<rparr>)
                                           (listing s)) ss)))"
  proof (rule Cons.IH)
    fix t assume "t \<in> set ss"
    then show "\<exists>kvs. get (url self ''basebackup'' t) = Inr (JObj kvs) \<and>
                   map_of kvs ''basebackups'' = Some (JArr (map JObj (listing t)))"
      using Cons.prems(1) [of t] by simp
  next
    fix t b assume "t \<in> set ss" "b \<in> set (listing t)"
    then show "map_of b ''name'' = Some (nm b)"
      using Cons.prems(2) [of t b] by simp
  qed
  show ?case
    by (simp add: g l a ih Let_def)
qed

text \<open>
  Claim C8. Let every configured site answer \<^verbatim>\<open>GET http://<host>:<port>/<site>/basebackup\<close>
  with a JSON object whose \<open>basebackups\<close> member is an array of objects (\<open>listing s\<close>
  for the site \<open>s\<close>), each with a \<open>name\<close> member (\<open>nm b\<close>). Then
  \<open>HTTPRestore.list_basebackups\<close> requests exactly these URLs, one for each site in the
  order of the site list, and returns the concatenation, in site order, of one entry for
  each element of each array: the name is the element's \<open>name\<close> member, the data is the
  whole element, the site is the site asked.
\<close>

theorem list_basebackups_concatenates:
  assumes "\<And>s. s \<in> set (sites self) \<Longrightarrow>
             \<exists>kvs. get (url self ''basebackup'' s) = Inr (JObj kvs) \<and>
                   map_of kvs ''basebackups'' = Some (JArr (map JObj (listing s)))"
    and "\<And>s b. s \<in> set (sites self) \<Longrightarrow> b \<in> set (listing s) \<Longrightarrow>
             map_of b ''name'' = Some (nm b)"
  shows "list_basebackups get self =
         (map (\<lambda>s. ''http://'' @ host self @ '':'' @ port self @ ''/'' @ s @ ''/basebackup'')
            (sites self),
          Inr (concat (map (\<lambda>s. map (\<lambda>b. \<lparr>name = nm b, data = JObj b, site = s\<rparr>)
                                    (listing s)) (sites self))))"
proof -
  have u: "url self ''basebackup'' =
           (\<lambda>s. ''http://'' @ host self @ '':'' @ port self @ ''/'' @ s @ ''/basebackup'')"
    by (simp add: url_def fun_eq_iff)
  show ?thesis
    unfolding list_basebackups_def u [symmetric]
    using list_basebackups_loop_listing [of "sites self" get self listing nm "[]" "[]"] assms
    by simp
qed

theorem list_basebackups_concatenates_witness:
  "list_basebackups test_agent test_restore =
     ([''http://localhost:16000/a/basebackup'', ''http://localhost:16000/b/basebackup''],
      Inr [\<lparr>name = JStr ''b2'', data = JObj [(''name'', JStr ''b2''), (''size'', JNum 5)],
            site = ''a''\<rparr>,
           \<lparr>name = JStr ''b1'', data = JObj [(''name'', JStr ''b1'')], site = ''a''\<rparr>,
           \<lparr>name = JStr ''b0'', data = JObj [(''name'', JStr ''b0'')], site = ''b''\<rparr>])"
proof -
  have h1: "\<exists>kvs. test_agent (url test_restore ''basebackup'' s) = Inr (JObj kvs) \<and>
              map_of kvs ''basebackups'' = Some (JArr (map JObj (test_listing s)))"
    if "s \<in> set (sites test_restore)" for s
    using that by (auto simp add: test_restore_def test_agent_def url_def test_listing_def)
  have h2: "map_of b ''name'' = Some (name_field b)"
    if "s \<in> set (sites test_restore)" "b \<in> set (test_listing s)" for s b
    using that by (auto simp add: test_listing_def name_field_def split: if_splits)
  from list_basebackups_concatenates [of test_restore test_agent test_listing name_field,
      OF h1 h2]
  show ?thesis
    by (simp add: test_restore_def test_listing_def name_field_def)
qed

section \<open>Printing the list of backups\<close>

subsection \<open>The store only grows\<close>

lemma print_entry_grows:
  "\<exists>ext. fst (fst (print_entry lib verbose b (h, out))) = h @ ext"
proof (cases "dict_getitem (h ! data b) ''metadata''")
  case (Inl e)
  then show ?thesis by (simp add: print_entry_def)
next
  case (Inr mv)
  show ?thesis
  proof (cases mv)
    case (VDict a)
    show ?thesis
    proof (cases "dict_pop (h ! a) ''start-time''")
      case (Inl e)
      with Inr VDict show ?thesis by (simp add: print_entry_def Let_def)
    next
      case (Inr r)
      obtain lm popped where r: "r = (lm, popped)" by (cases r)
      show ?thesis
        using \<open>dict_getitem (h ! data b) ''metadata'' = Inr mv\<close> VDict Inr r
        by (cases "row_text lib (h @ [popped]) (name b) popped ((h @ [popped]) ! data b) lm")
          (simp_all add: print_entry_def Let_def)
    qed
  qed (use Inr in \<open>simp_all add: print_entry_def\<close>)
qed

lemma print_entries_grows:
  "\<exists>ext. fst (fst (print_entries lib verbose bs (h, out))) = h @ ext"
proof (induction bs arbitrary: h out)
  case Nil
  then show ?case by simp
next
  case (Cons b bs)
  obtain h' out' err where p: "print_entry lib verbose b (h, out) = ((h', out'), err)"
    by (metis surj_pair)
  from print_entry_grows [of lib verbose b h out] p obtain ext where h': "h' = h @ ext"
    by auto
  show ?case
  proof (cases err)
    case None
    from Cons.IH [of h' out'] obtain ext' where
      "fst (fst (print_entries lib verbose bs (h', out'))) = h' @ ext'" by blast
    with p None h' show ?thesis by simp
  next
    case (Some e)
    with p h' show ?thesis by simp
  qed
qed

subsection \<open>A row does not depend on what was allocated later\<close>

lemma heap_ok_refs_in: "heap_ok h \<Longrightarrow> a < length h \<Longrightarrow> refs_in h (h ! a)"
  unfolding heap_ok_def by (meson nth_mem)

lemma refs_in_delete: "refs_in h d \<Longrightarrow> refs_in h (AList.delete k d)"
  by (auto simp add: refs_in_def AList.delete_eq)

lemma refs_in_map_of:
  "refs_in h d \<Longrightarrow> map_of d k = Some (VDict a) \<Longrightarrow> a < length h"
  by (auto simp add: refs_in_def dest!: map_of_SomeD)

lemma truthy_dict_get_frame:
  assumes "refs_in h d"
  shows "truthy (h @ ext) (dict_get d k (dict_get d k' VNone)) =
         truthy h (dict_get d k (dict_get d k' VNone))"
proof -
  let ?x = "dict_get d k (dict_get d k' VNone)"
  have "?x = VNone \<or> (\<exists>j. map_of d j = Some ?x)"
    by (auto simp add: dict_get_def split: option.splits)
  then show ?thesis
  proof
    assume "?x = VNone"
    then show ?thesis by simp
  next
    assume "\<exists>j. map_of d j = Some ?x"
    then obtain j where j: "map_of d j = Some ?x" ..
    show ?thesis
    proof (cases ?x)
      case (VDict a)
      with j assms have "a < length h" by (auto intro: refs_in_map_of)
      with VDict show ?thesis by (simp add: nth_append)
    qed simp_all
  qed
qed

lemma orig_size_str_frame:
  "refs_in h meta \<Longrightarrow> orig_size_str lib (h @ ext) meta = orig_size_str lib h meta"
  by (simp add: orig_size_str_def truthy_dict_get_frame)

lemma row_text_frame:
  "refs_in h meta \<Longrightarrow> row_text lib (h @ ext) nm meta d lm = row_text lib h nm meta d lm"
  by (simp add: row_text_def orig_size_str_frame split: sum.splits)

lemma print_entry_frame:
  assumes ok: "heap_ok h" and d: "data b < length h"
    and p: "print_entry lib verbose b (h, []) = ((h0, out0), err)"
  shows "\<exists>e. h0 = h @ e \<and>
             print_entry lib verbose b (h @ ext, out) = ((h @ ext @ e, out @ out0), err)"
proof -
  have dd: "(h @ ext) ! data b = h ! data b" using d by (simp add: nth_append)
  show ?thesis
  proof (cases "dict_getitem (h ! data b) ''metadata''")
    case (Inl e)
    with p dd show ?thesis by (auto simp add: print_entry_def)
  next
    case (Inr mv)
    show ?thesis
    proof (cases mv)
      case (VDict a)
      have "map_of (h ! data b) ''metadata'' = Some (VDict a)"
        using Inr VDict by (simp add: dict_getitem_def split: option.splits)
      then have a: "a < length h"
        using heap_ok_refs_in [OF ok d] by (rule refs_in_map_of [rotated])
      then have aa: "(h @ ext) ! a = h ! a" by (simp add: nth_append)
      have ra: "refs_in h (h ! a)" using ok a by (rule heap_ok_refs_in)
      show ?thesis
      proof (cases "dict_pop (h ! a) ''start-time''")
        case (Inl e)
        with p Inr VDict dd aa show ?thesis
          by (auto simp add: print_entry_def Let_def)
      next
        case (Inr r)
        obtain lm popped where r: "r = (lm, popped)" by (cases r)
        have popped: "popped = AList.delete ''start-time'' (h ! a)"
          using Inr r by (auto simp add: dict_pop_def split: option.splits)
        have rp: "refs_in h popped" unfolding popped using ra by (rule refs_in_delete)
        have u1: "(h @ [h ! a])[length h := popped] = h @ [popped]" by simp
        have u2: "(h @ ext @ [h ! a])[length h + length ext := popped] = h @ ext @ [popped]"
          by (metis append.assoc length_append list_update_length)
        have n1: "(h @ [popped]) ! data b = h ! data b" using d by (simp add: nth_append)
        have n2: "(h @ ext @ [popped]) ! data b = h ! data b" using d by (simp add: nth_append)
        have m2: "(h @ ext @ [popped]) ! (length h + length ext) = popped"
          by (metis append.assoc length_append nth_append_length)
        have m3: "(h @ ext @ [h ! a]) ! (length h + length ext) = h ! a"
          by (metis append.assoc length_append nth_append_length)
        have rt: "row_text lib (h @ ext @ [popped]) (name b) popped (h ! data b) lm =
                  row_text lib (h @ [popped]) (name b) popped (h ! data b) lm"
          using row_text_frame [OF rp, of lib "ext @ [popped]"] row_text_frame [OF rp, of lib "[popped]"]
          by simp
        show ?thesis
          using p \<open>dict_getitem (h ! data b) ''metadata'' = Inr mv\<close> VDict Inr r
          by (cases "row_text lib (h @ [popped]) (name b) popped (h ! data b) lm")
            (auto simp add: print_entry_def Let_def dd aa u1 u2 n1 n2 m2 m3 rt)
      qed
    qed (use p Inr dd in \<open>auto simp add: print_entry_def\<close>)
  qed
qed

lemma print_entries_frame:
  assumes ok: "heap_ok h" and d: "\<forall>b \<in> set bs. data b < length h"
    and run: "print_entries lib verbose bs (h @ ext, out) = (s', None)"
  shows "snd s' = out @ concat (map (entry_output lib verbose h) bs) \<and>
         (\<forall>b \<in> set bs. snd (print_entry lib verbose b (h, [])) = None)"
  using d run
proof (induction bs arbitrary: ext out)
  case Nil
  then show ?case by auto
next
  case (Cons b bs)
  obtain h0 out0 err where p: "print_entry lib verbose b (h, []) = ((h0, out0), err)"
    by (metis surj_pair)
  have db: "data b < length h" using Cons.prems(1) by simp
  from print_entry_frame [OF ok db p, of ext out] obtain e where
    q: "print_entry lib verbose b (h @ ext, out) = ((h @ ext @ e, out @ out0), err)"
    by blast
  have err: "err = None"
    using Cons.prems(2) q by (cases err) simp_all
  have o: "entry_output lib verbose h b = out0"
    using p by (simp add: entry_output_def)
  have rest: "print_entries lib verbose bs (h @ (ext @ e), out @ out0) = (s', None)"
    using Cons.prems(2) q err by simp
  have "snd s' = (out @ out0) @ concat (map (entry_output lib verbose h) bs) \<and>
        (\<forall>b \<in> set bs. snd (print_entry lib verbose b (h, [])) = None)"
    using Cons.prems(1) rest by (intro Cons.IH) simp_all
  then show ?case using o p err by simp
qed

lemma entry_output_shape:
  assumes "snd (print_entry lib verbose b (h, [])) = None"
  shows "\<exists>row m. entry_output lib verbose h b =
           Line row # (if verbose then [Metadata m] else [])"
  using assms unfolding entry_output_def print_entry_def Let_def
  by (auto split: sum.splits pyval.splits prod.splits)

lemma sort_key_same_groups:
  fixes f :: "'a \<Rightarrow> 'k::linorder"
  assumes "mset ys = mset xs"
    and "\<And>k. filter (\<lambda>x. f x = k) ys = filter (\<lambda>x. f x = k) xs"
  shows "sort_key f ys = sort_key f xs"
proof (rule properties_for_sort_key)
  show "mset (sort_key f xs) = mset ys" using assms(1) by simp
  show "sorted (map f (sort_key f xs))" by simp
  fix k assume "k \<in> set (sort_key f xs)"
  have "filter (\<lambda>x. f k = f x) (sort_key f xs) = filter (\<lambda>x. f x = f k) (sort_key f xs)"
    by (rule filter_cong) auto
  also have "\<dots> = filter (\<lambda>x. f x = f k) xs" by (rule sort_key_stable)
  also have "\<dots> = filter (\<lambda>x. f x = f k) ys" using assms(2) by simp
  also have "\<dots> = filter (\<lambda>x. f k = f x) ys" by (rule filter_cong) auto
  finally show "filter (\<lambda>x. f k = f x) (sort_key f xs) = filter (\<lambda>x. f k = f x) ys" .
qed

subsection \<open>Two entries of the same name\<close>

lemma replicate_numeral:
  "replicate (numeral k) x = x # replicate (pred_numeral k) x"
  by (simp add: numeral_eq_Suc)

lemmas eval_print = replicate_numeral
  print_basebackup_list_def print_entry_def table_head_def row_text_def lm_text_def
  size_str_def orig_size_str_def dict_getitem_def dict_get_def dict_pop_def fmt_def
  ljust_def rjust_def isoformat_def zpad_def show_int_def show_nat.simps digit_char_def
  Let_def plain_library_def noon_def twin_heap_def twin_one_def twin_two_def
  AList.delete_eq

lemma twin_run_12:
  "print_basebackup_list plain_library [twin_one, twin_two] ''Available basebackups'' False
     twin_heap =
   ((twin_heap @ [[], [(''total-size-plain'', VInt 3145728)]],
     [Line (''Available basebackups '' @ [CHR 0x0A]),
      Line ''Basebackup                                Backup size    Orig size  Start time          '',
      Line ''----------------------------------------  -----------  -----------  --------------------'',
      Line ''b                                                1 MB          n/a  2022-12-10T12:00:00Z'',
      Line ''b                                                2 MB         3 MB  2022-12-10T12:00:00Z'']),
    None)"
  by (simp add: eval_print)

lemma twin_run_21:
  "print_basebackup_list plain_library [twin_two, twin_one] ''Available basebackups'' False
     twin_heap =
   ((twin_heap @ [[(''total-size-plain'', VInt 3145728)], []],
     [Line (''Available basebackups '' @ [CHR 0x0A]),
      Line ''Basebackup                                Backup size    Orig size  Start time          '',
      Line ''----------------------------------------  -----------  -----------  --------------------'',
      Line ''b                                                2 MB         3 MB  2022-12-10T12:00:00Z'',
      Line ''b                                                1 MB          n/a  2022-12-10T12:00:00Z'']),
    None)"
  by (simp add: eval_print)

text \<open>
  Claim C9, as the code has it. Let the store have no dangling reference and hold the
  data of every entry, and let \<open>print_basebackup_list\<close> return without an exception.
  Then what it prints is the three lines of the head followed, for the entries in
  ascending order of their names, by what each entry prints by itself: exactly one row,
  and one metadata line after it in verbose mode. The sort is stable, so entries of the
  same name keep the order of the input, and the call does the same (same output, same
  store, same outcome) on every permutation of the input that keeps the entries of each
  name in the same order, in particular on every permutation when the names are
  distinct. \<open>show_basebackup_list\<close> is the same call, on the listing of the store.
\<close>

theorem print_basebackup_list_rows:
  assumes "heap_ok h" and "\<forall>b \<in> set bs. data b < length h"
    and "snd (print_basebackup_list lib bs caption verbose h) = None"
  shows "snd (fst (print_basebackup_list lib bs caption verbose h)) =
           table_head caption @ concat (map (entry_output lib verbose h) (sort_key name bs))
       \<and> (\<forall>b \<in> set bs. \<exists>row m. entry_output lib verbose h b =
                                 Line row # (if verbose then [Metadata m] else []))
       \<and> sorted (map name (sort_key name bs))
       \<and> mset (sort_key name bs) = mset bs
       \<and> (\<forall>bs'. mset bs' = mset bs \<and>
                  (\<forall>k. filter (\<lambda>b. name b = k) bs' = filter (\<lambda>b. name b = k) bs) \<longrightarrow>
                print_basebackup_list lib bs' caption verbose h =
                print_basebackup_list lib bs caption verbose h)
       \<and> show_basebackup_list lib (s # ss) (Inr bs) verbose h =
           print_basebackup_list lib bs (''Available '' @ repr_str lib s @ '' basebackups:'')
             verbose h"
proof -
  let ?r = "print_entries lib verbose (sort_key name bs) (h, table_head caption)"
  have "?r = (fst ?r, None)"
    using assms(3) unfolding print_basebackup_list_def by (simp add: prod_eq_iff)
  then have run: "print_entries lib verbose (sort_key name bs) (h @ [], table_head caption) =
      (fst ?r, None)"
    by simp
  have d: "\<forall>b \<in> set (sort_key name bs). data b < length h"
    using assms(2) by simp
  note fr = print_entries_frame [OF assms(1) d run]
  have a: "snd (fst (print_basebackup_list lib bs caption verbose h)) =
           table_head caption @ concat (map (entry_output lib verbose h) (sort_key name bs))"
    using fr unfolding print_basebackup_list_def by (rule conjunct1)
  have b: "\<forall>b \<in> set bs. \<exists>row m. entry_output lib verbose h b =
                                 Line row # (if verbose then [Metadata m] else [])"
  proof
    fix b assume "b \<in> set bs"
    then have "b \<in> set (sort_key name bs)" by simp
    with fr have "snd (print_entry lib verbose b (h, [])) = None"
      by blast
    then show "\<exists>row m. entry_output lib verbose h b =
                 Line row # (if verbose then [Metadata m] else [])"
      by (rule entry_output_shape)
  qed
  have c: "\<forall>bs'. mset bs' = mset bs \<and>
                  (\<forall>k. filter (\<lambda>b. name b = k) bs' = filter (\<lambda>b. name b = k) bs) \<longrightarrow>
                print_basebackup_list lib bs' caption verbose h =
                print_basebackup_list lib bs caption verbose h"
  proof (intro allI impI)
    fix bs' :: "(string, addr) BaseBackupInfo list"
    assume h: "mset bs' = mset bs \<and>
                  (\<forall>k. filter (\<lambda>b. name b = k) bs' = filter (\<lambda>b. name b = k) bs)"
    have "sort_key name bs' = sort_key name bs"
    proof (rule sort_key_same_groups)
      show "mset bs' = mset bs" using h by (rule conjunct1)
      show "filter (\<lambda>x. name x = k) bs' = filter (\<lambda>x. name x = k) bs" for k
        using h by blast
    qed
    then show "print_basebackup_list lib bs' caption verbose h =
                print_basebackup_list lib bs caption verbose h"
      unfolding print_basebackup_list_def by (rule arg_cong)
  qed
  have e: "show_basebackup_list lib (s # ss) (Inr bs) verbose h =
           print_basebackup_list lib bs (''Available '' @ repr_str lib s @ '' basebackups:'')
             verbose h"
    by (simp add: show_basebackup_list_def)
  have f: "sorted (map name (sort_key name bs))" by (rule sorted_sort_key)
  have g: "mset (sort_key name bs) = mset bs" by (rule mset_sort)
  show ?thesis
    by (intro conjI a b c e f g)
qed

theorem print_basebackup_list_rows_witness:
  "heap_ok twin_heap
   \<and> data twin_one < length twin_heap \<and> data twin_two < length twin_heap
   \<and> snd (print_basebackup_list plain_library [twin_one, twin_two] ''Available basebackups''
          False twin_heap) = None
   \<and> snd (fst (print_basebackup_list plain_library [twin_one, twin_two]
          ''Available basebackups'' False twin_heap)) =
       table_head ''Available basebackups'' @
       concat (map (entry_output plain_library False twin_heap)
         (sort_key name [twin_one, twin_two]))
   \<and> sort_key name [twin_one, twin_two] = [twin_one, twin_two]"
proof -
  have h1: "heap_ok twin_heap"
    by (simp add: heap_ok_def refs_in_def twin_heap_def)
  have h2: "\<forall>b \<in> set [twin_one, twin_two]. data b < length twin_heap"
    by (simp add: twin_heap_def twin_one_def twin_two_def)
  have h3: "snd (print_basebackup_list plain_library [twin_one, twin_two]
      ''Available basebackups'' False twin_heap) = None"
    by (simp add: twin_run_12)
  have s: "sort_key name [twin_one, twin_two] = [twin_one, twin_two]"
    by (simp add: twin_one_def twin_two_def)
  have d: "data twin_one < length twin_heap \<and> data twin_two < length twin_heap"
    using h2 by simp
  note t = print_basebackup_list_rows [OF h1 h2 h3, of "[]" "[]"]
  from t have o: "snd (fst (print_basebackup_list plain_library [twin_one, twin_two]
          ''Available basebackups'' False twin_heap)) =
       table_head ''Available basebackups'' @
       concat (map (entry_output plain_library False twin_heap)
         (sort_key name [twin_one, twin_two]))"
    by (rule conjunct1)
  show ?thesis
    using h1 d h3 o s by (intro conjI) simp_all
qed

text \<open>
  Two entries of the same name whose rows differ: the two orders of the input are
  permutations of each other and are printed in two different orders.
\<close>

theorem print_basebackup_list_permutation_counterexample:
  "mset [twin_two, twin_one] = mset [twin_one, twin_two]
   \<and> snd (fst (print_basebackup_list plain_library [twin_one, twin_two]
          ''Available basebackups'' False twin_heap)) =
       [Line (''Available basebackups '' @ [CHR 0x0A]),
        Line ''Basebackup                                Backup size    Orig size  Start time          '',
        Line ''----------------------------------------  -----------  -----------  --------------------'',
        Line ''b                                                1 MB          n/a  2022-12-10T12:00:00Z'',
        Line ''b                                                2 MB         3 MB  2022-12-10T12:00:00Z'']
   \<and> snd (fst (print_basebackup_list plain_library [twin_two, twin_one]
          ''Available basebackups'' False twin_heap)) =
       [Line (''Available basebackups '' @ [CHR 0x0A]),
        Line ''Basebackup                                Backup size    Orig size  Start time          '',
        Line ''----------------------------------------  -----------  -----------  --------------------'',
        Line ''b                                                2 MB         3 MB  2022-12-10T12:00:00Z'',
        Line ''b                                                1 MB          n/a  2022-12-10T12:00:00Z'']
   \<and> snd (fst (print_basebackup_list plain_library [twin_one, twin_two]
          ''Available basebackups'' False twin_heap)) \<noteq>
       snd (fst (print_basebackup_list plain_library [twin_two, twin_one]
          ''Available basebackups'' False twin_heap))"
proof -
  have p: "mset [twin_two, twin_one] = mset [twin_one, twin_two]"
    by (simp add: add.commute)
  have n: "twin_one \<noteq> twin_two"
    by (simp add: twin_one_def twin_two_def)
  show ?thesis
    unfolding twin_run_12 twin_run_21 using p by simp
qed

text \<open>
  Claim C10. \<open>print_basebackup_list\<close> does not change its input. Whatever the entries,
  the store and the library functions are, and whether the call returns or raises, the
  store after the call is the store before it followed by the dictionaries the call has
  allocated: the copy of \<^verbatim>\<open>data["metadata"]\<close> is a new object, and \<^verbatim>\<open>pop\<close> changes that
  object only. So the data and the metadata of every entry are as they were; the entries
  themselves and the list that holds them are values the call only reads.
\<close>

theorem print_basebackup_list_keeps_input:
  "\<exists>ext. fst (fst (print_basebackup_list lib basebackups caption verbose h)) = h @ ext"
  unfolding print_basebackup_list_def by (rule print_entries_grows)

section \<open>The hashes of earlier backups\<close>

lemmas eval_fetch =
  fetch_all_data_files_hashes_def format_has_hashes_def basebackup_path_def os_path_join_def
  join_step_def Let_def fake_download_backup_meta_file_def test_remote_basebackups_def

lemma fetch_test:
  "fetch_all_data_files_hashes fake_download_backup_meta_file ''a/b/c'' test_remote_basebackups =
     ([''a/b/c/basebackup/backup1'', ''a/b/c/basebackup/backup2'', ''a/b/c/basebackup/backup3'',
       ''a/b/c/basebackup/backup4'', ''a/b/c/basebackup/backup5''],
      [hash_a \<mapsto> 1636, hash_b \<mapsto> 8192, hash_c \<mapsto> 800])"
  by (auto simp add: eval_fetch fun_eq_iff map_add_def hash_a_def hash_b_def hash_c_def)

lemma fetch_hashes_loop_paths:
  "fst (fetch_hashes_loop download pfx backups acc) =
     fst acc @ map (\<lambda>b. basebackup_path pfx (bb_name b))
                  (filter (\<lambda>b. format_has_hashes (bb_format b)) backups)"
  by (induction backups arbitrary: acc) (auto simp add: Let_def split: option.splits)

lemma fetch_hashes_loop_Some:
  assumes "snd (fetch_hashes_loop download pfx backups acc) k = Some n"
  shows "snd acc k = Some n \<or>
         (\<exists>b \<in> set backups. \<exists>hs. format_has_hashes (bb_format b) \<and>
            delta_stats_hashes (download (basebackup_path pfx (bb_name b))) = Some hs \<and>
            map_of hs k = Some n)"
  using assms
proof (induction backups arbitrary: acc)
  case Nil
  then show ?case by simp
next
  case (Cons b bs)
  show ?case
  proof (cases "format_has_hashes (bb_format b)")
    case False
    with Cons.prems have "snd (fetch_hashes_loop download pfx bs acc) k = Some n" by simp
    from Cons.IH [OF this] show ?thesis by auto
  next
    case True
    let ?p = "basebackup_path pfx (bb_name b)"
    show ?thesis
    proof (cases "delta_stats_hashes (download ?p)")
      case None
      with True Cons.prems
      have "snd (fetch_hashes_loop download pfx bs (fst acc @ [?p], snd acc)) k = Some n"
        by (simp add: Let_def)
      from Cons.IH [OF this] show ?thesis by auto
    next
      case (Some hs)
      with True Cons.prems
      have "snd (fetch_hashes_loop download pfx bs (fst acc @ [?p], snd acc ++ map_of hs)) k =
            Some n"
        by (simp add: Let_def)
      from Cons.IH [OF this] have
        "(snd acc ++ map_of hs) k = Some n \<or>
         (\<exists>b \<in> set bs. \<exists>hs. format_has_hashes (bb_format b) \<and>
            delta_stats_hashes (download (basebackup_path pfx (bb_name b))) = Some hs \<and>
            map_of hs k = Some n)"
        by simp
      then show ?thesis
      proof
        assume "(snd acc ++ map_of hs) k = Some n"
        then have "snd acc k = Some n \<or> map_of hs k = Some n"
          by (auto simp add: map_add_Some_iff)
        with True Some show ?thesis by auto
      qed auto
    qed
  qed
qed

lemma fetch_hashes_loop_keeps:
  "k \<in> dom (snd acc) \<Longrightarrow> k \<in> dom (snd (fetch_hashes_loop download pfx backups acc))"
proof (induction backups arbitrary: acc)
  case Nil
  then show ?case by simp
next
  case (Cons b bs)
  show ?case
  proof (cases "format_has_hashes (bb_format b)")
    case False
    then show ?thesis using Cons by simp
  next
    case True
    show ?thesis
    proof (cases "delta_stats_hashes (download (basebackup_path pfx (bb_name b)))")
      case None
      with True show ?thesis using Cons.IH [of "(fst acc @ [basebackup_path pfx (bb_name b)], snd acc)"]
          Cons.prems by (simp add: Let_def)
    next
      case (Some hs)
      have "k \<in> dom (snd (fst acc @ [basebackup_path pfx (bb_name b)], snd acc ++ map_of hs))"
        using Cons.prems by auto
      from Cons.IH [OF this] True Some show ?thesis by (simp add: Let_def)
    qed
  qed
qed

lemma fetch_hashes_loop_covers:
  assumes "b \<in> set backups" and "format_has_hashes (bb_format b)"
    and "delta_stats_hashes (download (basebackup_path pfx (bb_name b))) = Some hs"
    and "k \<in> fst ` set hs"
  shows "k \<in> dom (snd (fetch_hashes_loop download pfx backups acc))"
  using assms(1)
proof (induction backups arbitrary: acc)
  case Nil
  then show ?case by simp
next
  case (Cons c cs)
  show ?case
  proof (cases "c = b")
    case True
    have "k \<in> dom (snd (fst acc @ [basebackup_path pfx (bb_name b)], snd acc ++ map_of hs))"
      using assms(4) by (auto simp add: dom_map_of_conv_image_fst)
    then have "k \<in> dom (snd (fetch_hashes_loop download pfx cs
        (fst acc @ [basebackup_path pfx (bb_name b)], snd acc ++ map_of hs)))"
      by (rule fetch_hashes_loop_keeps)
    with True assms(2,3) show ?thesis by (simp add: Let_def)
  next
    case False
    with Cons.prems have in_cs: "b \<in> set cs" by simp
    show ?thesis
    proof (cases "format_has_hashes (bb_format c)")
      case False
      then show ?thesis using Cons.IH [OF in_cs] by simp
    next
      case True
      then show ?thesis
        using Cons.IH [OF in_cs]
        by (cases "delta_stats_hashes (download (basebackup_path pfx (bb_name c)))")
          (simp_all add: Let_def)
    qed
  qed
qed

text \<open>
  Claim C6, as the test has it. \<open>fetch_all_data_files_hashes\<close> downloads the manifest
  of each remote basebackup whose format is \<open>v2\<close>, \<open>delta-v1\<close> or \<open>delta-v2\<close>, in the
  order of the listing, and of no other (a \<open>v1\<close> manifest is skipped). Every digest it
  returns, with its length, comes from the \<^verbatim>\<open>delta_stats.hashes\<close> of one of these
  manifests, and every digest of such a manifest is returned; a manifest without
  \<^verbatim>\<open>delta_stats\<close> contributes nothing. On the listing of the test the result is the
  three digests the test expects.
\<close>

theorem fetch_all_data_files_hashes_union:
  "fst (fetch_all_data_files_hashes download pfx backups) =
     map (\<lambda>b. os_path_join pfx [''basebackup'', bb_name b])
       (filter (\<lambda>b. bb_format b = Some v2 \<or> bb_format b = Some delta_v1 \<or>
                     bb_format b = Some delta_v2) backups)
   \<and> (\<forall>k n. snd (fetch_all_data_files_hashes download pfx backups) k = Some n \<longrightarrow>
         (\<exists>b \<in> set backups. \<exists>hs.
            (bb_format b = Some v2 \<or> bb_format b = Some delta_v1 \<or>
             bb_format b = Some delta_v2) \<and>
            delta_stats_hashes (download (os_path_join pfx [''basebackup'', bb_name b])) =
              Some hs \<and>
            map_of hs k = Some n))
   \<and> (\<forall>b \<in> set backups. \<forall>hs.
         (bb_format b = Some v2 \<or> bb_format b = Some delta_v1 \<or>
          bb_format b = Some delta_v2) \<and>
         delta_stats_hashes (download (os_path_join pfx [''basebackup'', bb_name b])) =
           Some hs \<longrightarrow>
         fst ` set hs \<subseteq> dom (snd (fetch_all_data_files_hashes download pfx backups)))
   \<and> snd (fetch_all_data_files_hashes fake_download_backup_meta_file ''a/b/c''
          test_remote_basebackups) =
       [hash_a \<mapsto> 1636, hash_b \<mapsto> 8192, hash_c \<mapsto> 800]"
proof (intro conjI allI ballI impI)
  show "fst (fetch_all_data_files_hashes download pfx backups) =
     map (\<lambda>b. os_path_join pfx [''basebackup'', bb_name b])
       (filter (\<lambda>b. bb_format b = Some v2 \<or> bb_format b = Some delta_v1 \<or>
                     bb_format b = Some delta_v2) backups)"
    using fetch_hashes_loop_paths [of download pfx backups "([], Map.empty)"]
    by (simp add: fetch_all_data_files_hashes_def basebackup_path_def format_has_hashes_def)
next
  fix k n
  assume "snd (fetch_all_data_files_hashes download pfx backups) k = Some n"
  then have "snd (fetch_hashes_loop download pfx backups ([], Map.empty)) k = Some n"
    by (simp add: fetch_all_data_files_hashes_def)
  from fetch_hashes_loop_Some [OF this]
  show "\<exists>b \<in> set backups. \<exists>hs.
            (bb_format b = Some v2 \<or> bb_format b = Some delta_v1 \<or>
             bb_format b = Some delta_v2) \<and>
            delta_stats_hashes (download (os_path_join pfx [''basebackup'', bb_name b])) =
              Some hs \<and>
            map_of hs k = Some n"
    by (simp add: basebackup_path_def format_has_hashes_def)
next
  fix b hs
  assume b: "b \<in> set backups"
    and h: "(bb_format b = Some v2 \<or> bb_format b = Some delta_v1 \<or>
          bb_format b = Some delta_v2) \<and>
         delta_stats_hashes (download (os_path_join pfx [''basebackup'', bb_name b])) =
           Some hs"
  have f: "format_has_hashes (bb_format b)"
    using h by (simp add: format_has_hashes_def)
  have d: "delta_stats_hashes (download (basebackup_path pfx (bb_name b))) = Some hs"
    using h by (simp add: basebackup_path_def)
  show "fst ` set hs \<subseteq> dom (snd (fetch_all_data_files_hashes download pfx backups))"
    unfolding fetch_all_data_files_hashes_def
    using fetch_hashes_loop_covers [where b = b and backups = backups and download = download
        and pfx = pfx and hs = hs, OF b f d]
    by blast
next
  show "snd (fetch_all_data_files_hashes fake_download_backup_meta_file ''a/b/c''
          test_remote_basebackups) =
       [hash_a \<mapsto> 1636, hash_b \<mapsto> 8192, hash_c \<mapsto> 800]"
    by (simp add: fetch_test)
qed

theorem fetch_all_data_files_hashes_union_witness:
  "snd (fetch_all_data_files_hashes fake_download_backup_meta_file ''a/b/c''
      test_remote_basebackups) hash_c = Some 800
   \<and> test_remote_basebackups ! 3 \<in> set test_remote_basebackups
   \<and> bb_format (test_remote_basebackups ! 3) = Some v2
   \<and> delta_stats_hashes (fake_download_backup_meta_file
         (os_path_join ''a/b/c'' [''basebackup'', bb_name (test_remote_basebackups ! 3)])) =
       Some [(hash_a, 1636), (hash_c, 800)]
   \<and> fst ` set [(hash_a, 1636::nat), (hash_c, 800)] \<subseteq>
       dom (snd (fetch_all_data_files_hashes fake_download_backup_meta_file ''a/b/c''
         test_remote_basebackups))
   \<and> (\<exists>b \<in> set test_remote_basebackups. \<exists>hs.
         (bb_format b = Some v2 \<or> bb_format b = Some delta_v1 \<or>
          bb_format b = Some delta_v2) \<and>
         delta_stats_hashes (fake_download_backup_meta_file
           (os_path_join ''a/b/c'' [''basebackup'', bb_name b])) = Some hs \<and>
         map_of hs hash_c = Some 800)"
proof -
  note t = fetch_all_data_files_hashes_union [of fake_download_backup_meta_file "''a/b/c''"
      test_remote_basebackups]
  have r: "snd (fetch_all_data_files_hashes fake_download_backup_meta_file ''a/b/c''
      test_remote_basebackups) hash_c = Some 800"
    by (simp add: fetch_test)
  have m: "test_remote_basebackups ! 3 \<in> set test_remote_basebackups"
    by (simp add: test_remote_basebackups_def)
  have f: "bb_format (test_remote_basebackups ! 3) = Some v2"
    by (simp add: test_remote_basebackups_def)
  have d: "delta_stats_hashes (fake_download_backup_meta_file
         (os_path_join ''a/b/c'' [''basebackup'', bb_name (test_remote_basebackups ! 3)])) =
       Some [(hash_a, 1636), (hash_c, 800)]"
    by (simp add: eval_fetch)
  from t r have e: "\<exists>b \<in> set test_remote_basebackups. \<exists>hs.
         (bb_format b = Some v2 \<or> bb_format b = Some delta_v1 \<or>
          bb_format b = Some delta_v2) \<and>
         delta_stats_hashes (fake_download_backup_meta_file
           (os_path_join ''a/b/c'' [''basebackup'', bb_name b])) = Some hs \<and>
         map_of hs hash_c = Some 800"
    by blast
  from t m f d have c: "fst ` set [(hash_a, 1636::nat), (hash_c, 800)] \<subseteq>
       dom (snd (fetch_all_data_files_hashes fake_download_backup_meta_file ''a/b/c''
         test_remote_basebackups))"
    by blast
  show ?thesis
    by (intro conjI r m f d c e)
qed

text \<open>
  In the listing of the test the digest \<open>hash_b\<close> is returned although the only manifest
  that has it, \<open>backup2\<close>, is of format \<open>v2\<close>; the manifests of format \<open>delta-v1\<close> and
  \<open>delta-v2\<close> (\<open>backup4\<close>, \<open>backup5\<close>) have no digest at all.
\<close>

theorem fetch_all_data_files_hashes_v2_counterexample:
  "snd (fetch_all_data_files_hashes fake_download_backup_meta_file ''a/b/c''
      test_remote_basebackups) hash_b = Some 8192
   \<and> filter (\<lambda>b. bb_format b = Some delta_v1 \<or> bb_format b = Some delta_v2)
       test_remote_basebackups =
     [\<lparr>bb_name = ''backup4'', bb_format = Some delta_v1\<rparr>,
      \<lparr>bb_name = ''backup5'', bb_format = Some delta_v2\<rparr>]
   \<and> delta_stats_hashes (fake_download_backup_meta_file ''a/b/c/basebackup/backup4'') = Some []
   \<and> delta_stats_hashes (fake_download_backup_meta_file ''a/b/c/basebackup/backup5'') = None
   \<and> delta_stats_hashes (fake_download_backup_meta_file ''a/b/c/basebackup/backup2'') =
       Some [(hash_a, 1636), (hash_b, 8192)]
   \<and> test_remote_basebackups ! 2 = \<lparr>bb_name = ''backup2'', bb_format = Some v2\<rparr>"
proof -
  have a: "snd (fetch_all_data_files_hashes fake_download_backup_meta_file ''a/b/c''
      test_remote_basebackups) hash_b = Some 8192"
    by (simp add: fetch_test hash_b_def hash_c_def)
  have b: "filter (\<lambda>b. bb_format b = Some delta_v1 \<or> bb_format b = Some delta_v2)
       test_remote_basebackups =
     [\<lparr>bb_name = ''backup4'', bb_format = Some delta_v1\<rparr>,
      \<lparr>bb_name = ''backup5'', bb_format = Some delta_v2\<rparr>]"
    by (simp add: test_remote_basebackups_def)
  have c: "delta_stats_hashes (fake_download_backup_meta_file ''a/b/c/basebackup/backup4'') =
      Some []"
    by (simp add: fake_download_backup_meta_file_def)
  have d: "delta_stats_hashes (fake_download_backup_meta_file ''a/b/c/basebackup/backup5'') =
      None"
    by (simp add: fake_download_backup_meta_file_def)
  have e: "delta_stats_hashes (fake_download_backup_meta_file ''a/b/c/basebackup/backup2'') =
       Some [(hash_a, 1636), (hash_b, 8192)]"
    by (simp add: fake_download_backup_meta_file_def)
  have f: "test_remote_basebackups ! 2 = \<lparr>bb_name = ''backup2'', bb_format = Some v2\<rparr>"
    by (simp add: test_remote_basebackups_def)
  show ?thesis
    by (intro conjI a b c d e f)
qed

section \<open>The backup label\<close>

lemmas eval_label =
  parse_backup_label_def lines_of_def starts_with_def wal_segment_of_line_def
  iso_utc_of_start_time_def words_of_def nat_of_string_def is_digit_def digit_value_def
  zone_offset_def numeric_offset_def valid_datetime_def to_utc_def days_in_month_def
  leap_year_def previous_day_def next_day_def Let_def
  isoformat_def format_offset_def zpad_def show_nat.simps digit_char_def

lemma parse_test_backup_label:
  "parse_backup_label zones test_backup_label =
     Some (''000000010000000000000004'', ''2015-02-12T14:07:19+00:00'')"
  by (simp add: test_backup_label_def eval_label)

text \<open>
  A start time in another zone is moved to UTC, over the end of the month or of the year
  when it must: 01:07:19 on 1 March in a zone two hours east is 23:07:19 on 28 February.
\<close>

lemma parse_backup_label_named_zone:
  "parse_backup_label eet_zones
     (''START WAL LOCATION: 0/4000028 (file 000000010000000000000004)'' @ [CHR 0x0A] @
      ''START TIME: 2015-03-01 01:07:19 EET'' @ [CHR 0x0A]) =
     Some (''000000010000000000000004'', ''2015-02-28T23:07:19+00:00'')"
  by (simp add: eet_zones_def eval_label)

lemma parse_backup_label_numeric_zone:
  "parse_backup_label zones
     (''START WAL LOCATION: 0/4000028 (file 000000010000000000000004)'' @ [CHR 0x0A] @
      ''START TIME: 2015-12-31 23:07:19 -05:30'' @ [CHR 0x0A]) =
     Some (''000000010000000000000004'', ''2016-01-01T04:37:19+00:00'')"
  by (simp add: eval_label)

subsection \<open>Cutting at a separator\<close>

lemma split_on_whole: "d \<notin> set a \<Longrightarrow> split_on d a = [a]"
  by (induction a) auto

lemma split_on_first: "d \<notin> set a \<Longrightarrow> split_on d (a @ d # b) = a # split_on d b"
  by (induction a) auto

subsection \<open>Reading back a number that was written with leading zeros\<close>

lemma digit_char_digit: "is_digit (digit_char n) \<and> digit_value (digit_char n) = n mod 10"
proof -
  have "n mod 10 < 10" by simp
  then have "n mod 10 \<in> set [0..<10]" by simp
  also have "[0..<10] = [0, 1, 2, 3, 4, 5, 6, 7, 8, 9::nat]" by (simp add: upt_rec)
  finally show ?thesis
    by (auto simp add: digit_char_def is_digit_def digit_value_def)
qed

lemma show_nat_digits: "show_nat n \<noteq> [] \<and> list_all is_digit (show_nat n)"
proof (induction n rule: show_nat.induct)
  case (1 n)
  show ?case
  proof (cases "n < 10")
    case True
    then show ?thesis by (simp add: show_nat.simps [of n] digit_char_digit)
  next
    case False
    then show ?thesis using 1 by (simp add: show_nat.simps [of n] digit_char_digit)
  qed
qed

lemma show_nat_value: "foldl (\<lambda>a c. 10 * a + digit_value c) 0 (show_nat n) = n"
proof (induction n rule: show_nat.induct)
  case (1 n)
  show ?case
  proof (cases "n < 10")
    case True
    then show ?thesis by (simp add: show_nat.simps [of n] digit_char_digit)
  next
    case False
    then show ?thesis using 1 by (simp add: show_nat.simps [of n] digit_char_digit)
  qed
qed

lemma zeros_value:
  "foldl (\<lambda>a c. 10 * a + digit_value c) 0 (replicate k (CHR ''0'') @ s) =
   foldl (\<lambda>a c. 10 * a + digit_value c) 0 s"
  by (induction k) (simp_all add: digit_value_def)

lemma zpad_digits: "zpad w n \<noteq> [] \<and> list_all is_digit (zpad w n)"
proof -
  have "is_digit (CHR ''0'')" by (simp add: is_digit_def)
  then have "list_all is_digit (replicate k (CHR ''0''))" for k
    by (simp add: list_all_iff)
  then show ?thesis
    using show_nat_digits [of n] by (simp add: zpad_def)
qed

lemma nat_of_string_zpad: "nat_of_string (zpad w n) = Some n"
proof -
  have "foldl (\<lambda>a c. 10 * a + digit_value c) 0 (zpad w n) = n"
    unfolding zpad_def zeros_value by (rule show_nat_value)
  then show ?thesis
    using zpad_digits [of w n] by (simp add: nat_of_string_def)
qed

lemma zpad_no_char: "\<not> is_digit c \<Longrightarrow> c \<notin> set (zpad w n)"
  using zpad_digits [of w n] by (auto simp add: list_all_iff)

lemma not_digit [simp]:
  "\<not> is_digit (CHR '' '')" "\<not> is_digit (CHR ''-'')" "\<not> is_digit (CHR '':'')"
  by (simp_all add: is_digit_def)

subsection \<open>The two lines\<close>

lemma wal_segment_of_line_format:
  assumes "lsn \<noteq> []" and "CHR '' '' \<notin> set lsn" and "CHR '' '' \<notin> set seg"
  shows "wal_segment_of_line (''START WAL LOCATION: '' @ lsn @ '' (file '' @ seg @ '')'') =
           Some seg"
proof -
  have 1: "split_on (CHR '' '') (seg @ '')'') = [seg @ '')'']"
    using assms(3) by (intro split_on_whole) simp
  have 2: "split_on (CHR '' '') (lsn @ CHR '' '' # ''(file '' @ seg @ '')'') =
           [lsn, ''(file'', seg @ '')'']"
    unfolding split_on_first [OF assms(2)] using 1 by simp
  have "split_on (CHR '' '') (''START WAL LOCATION: '' @ lsn @ '' (file '' @ seg @ '')'') =
        [''START'', ''WAL'', ''LOCATION:'', lsn, ''(file'', seg @ '')'']"
    using 2 by simp
  then show ?thesis
    using assms(1) by (simp add: wal_segment_of_line_def words_of_def)
qed

lemma seconds_of_day:
  fixes h mi sec :: nat
  assumes "h < 24" and "mi < 60" and "sec < 60" and "t = h * 3600 + mi * 60 + sec"
  shows "t < 86400" and "t div 3600 = h" and "t mod 3600 div 60 = mi" and "t mod 60 = sec"
proof -
  show "t < 86400" using assms by simp
  show "t div 3600 = h" using assms by simp
  have r: "mi * 60 + sec < 3600" using assms by simp
  have e: "t = mi * 60 + sec + h * 3600" using assms(4) by simp
  have "t mod 3600 = (mi * 60 + sec) mod 3600"
    unfolding e by (rule mod_mult_self1)
  then have "t mod 3600 = mi * 60 + sec"
    using r by simp
  then show "t mod 3600 div 60 = mi" using assms(2,3) by simp
  have e': "t = sec + (h * 60 + mi) * 60" using assms(4) by simp
  have "t mod 60 = sec mod 60"
    unfolding e' by (rule mod_mult_self1)
  then show "t mod 60 = sec" using assms(3) by simp
qed

lemma to_utc_utc:
  assumes "h < 24" and "mi < 60" and "sec < 60"
  shows "to_utc \<lparr>dt_year = y, dt_month = mo, dt_day = day, dt_hour = h, dt_minute = mi,
                 dt_second = sec, dt_microsecond = us, dt_utcoffset = Some 0\<rparr> =
         \<lparr>dt_year = y, dt_month = mo, dt_day = day, dt_hour = h, dt_minute = mi,
          dt_second = sec, dt_microsecond = us, dt_utcoffset = Some 0\<rparr>"
proof -
  note s = seconds_of_day [OF assms refl]
  have n: "\<not> 86400 \<le> h * 3600 + mi * 60 + sec"
    using s(1) by simp
  have c: "nat (int h * 3600 + int mi * 60 + int sec) = h * 3600 + mi * 60 + sec"
    by linarith
  show ?thesis
    unfolding to_utc_def Let_def using n s(2-4) by (simp add: c)
qed

lemma iso_utc_of_start_time_format:
  assumes v: "1 \<le> y" "y \<le> 9999" "1 \<le> mo" "mo \<le> 12" "1 \<le> day" "day \<le> days_in_month y mo"
      "h < 24" "mi < 60" "sec < 60"
    and z: "z = ''GMT'' \<or> z = ''UTC''"
  shows "iso_utc_of_start_time zones
           (zpad 4 y @ ''-'' @ zpad 2 mo @ ''-'' @ zpad 2 day @ '' '' @
            zpad 2 h @ '':'' @ zpad 2 mi @ '':'' @ zpad 2 sec @ '' '' @ z) =
         Some (zpad 4 y @ ''-'' @ zpad 2 mo @ ''-'' @ zpad 2 day @ ''T'' @
               zpad 2 h @ '':'' @ zpad 2 mi @ '':'' @ zpad 2 sec @ ''+00:00'')"
proof -
  define date where "date = zpad 4 y @ CHR ''-'' # zpad 2 mo @ CHR ''-'' # zpad 2 day"
  define time where "time = zpad 2 h @ CHR '':'' # zpad 2 mi @ CHR '':'' # zpad 2 sec"
  have sd: "CHR '' '' \<notin> set date" "date \<noteq> []"
    by (simp_all add: date_def zpad_no_char zpad_digits)
  have st: "CHR '' '' \<notin> set time" "time \<noteq> []"
    by (simp_all add: time_def zpad_no_char zpad_digits)
  have sz: "CHR '' '' \<notin> set z" "z \<noteq> []"
    using z by auto
  have "split_on (CHR '' '') (date @ CHR '' '' # time @ CHR '' '' # z) = [date, time, z]"
    by (simp add: split_on_first [OF sd(1)] split_on_first [OF st(1)] split_on_whole [OF sz(1)])
  then have w: "words_of (date @ CHR '' '' # time @ CHR '' '' # z) = [date, time, z]"
    using sd(2) st(2) sz(2) by (simp add: words_of_def)
  have "split_on (CHR ''-'') date = [zpad 4 y, zpad 2 mo, zpad 2 day]"
    unfolding date_def
    by (simp add: split_on_first split_on_whole zpad_no_char)
  then have d: "map nat_of_string (split_on (CHR ''-'') date) = [Some y, Some mo, Some day]"
    by (simp add: nat_of_string_zpad)
  have "split_on (CHR '':'') time = [zpad 2 h, zpad 2 mi, zpad 2 sec]"
    unfolding time_def
    by (simp add: split_on_first split_on_whole zpad_no_char)
  then have t: "map nat_of_string (split_on (CHR '':'') time) = [Some h, Some mi, Some sec]"
    by (simp add: nat_of_string_zpad)
  have o: "zone_offset zones z = Some 0"
    using z by (auto simp add: zone_offset_def)
  let ?dt = "\<lparr>dt_year = y, dt_month = mo, dt_day = day, dt_hour = h, dt_minute = mi,
              dt_second = sec, dt_microsecond = 0, dt_utcoffset = Some 0\<rparr>"
  have u: "to_utc ?dt = ?dt"
    using v(7-9) by (rule to_utc_utc)
  have ok: "valid_datetime ?dt"
    using v by (simp add: valid_datetime_def)
  have f: "format_offset 0 = ''+00:00''"
    by (simp add: format_offset_def zpad_def show_nat.simps digit_char_def)
  have r: "isoformat (CHR ''T'') ?dt =
           zpad 4 y @ ''-'' @ zpad 2 mo @ ''-'' @ zpad 2 day @ ''T'' @
           zpad 2 h @ '':'' @ zpad 2 mi @ '':'' @ zpad 2 sec @ ''+00:00''"
    by (simp add: isoformat_def f)
  have "iso_utc_of_start_time zones (date @ CHR '' '' # time @ CHR '' '' # z) =
        Some (isoformat (CHR ''T'') ?dt)"
    unfolding iso_utc_of_start_time_def w by (simp add: d t o u ok)
  then show ?thesis
    unfolding r by (simp add: date_def time_def)
qed

subsection \<open>The lines of a label\<close>

lemma scan_label_found:
  assumes w: "\<And>l. l \<in> set ls \<Longrightarrow> starts_with ''START WAL LOCATION: '' l \<Longrightarrow>
                wal_segment_of_line l = Some seg"
    and t: "\<And>l. l \<in> set ls \<Longrightarrow> \<not> starts_with ''START WAL LOCATION: '' l \<Longrightarrow>
                starts_with ''START TIME: '' l \<Longrightarrow>
                iso_utc_of_start_time zones (drop (length ''START TIME: '') l) = Some tm"
  shows "scan_label zones ls (a, b) =
           Some (if \<exists>l \<in> set ls. starts_with ''START WAL LOCATION: '' l then Some seg else a,
                 if \<exists>l \<in> set ls. \<not> starts_with ''START WAL LOCATION: '' l \<and>
                                  starts_with ''START TIME: '' l then Some tm else b)"
  using w t
proof (induction ls arbitrary: a b)
  case Nil
  then show ?case by simp
next
  case (Cons l ls)
  have w': "\<And>x. x \<in> set ls \<Longrightarrow> starts_with ''START WAL LOCATION: '' x \<Longrightarrow>
              wal_segment_of_line x = Some seg"
    using Cons.prems(1) by simp
  have t': "\<And>x. x \<in> set ls \<Longrightarrow> \<not> starts_with ''START WAL LOCATION: '' x \<Longrightarrow>
              starts_with ''START TIME: '' x \<Longrightarrow>
              iso_utc_of_start_time zones (drop (length ''START TIME: '') x) = Some tm"
    using Cons.prems(2) by simp
  note ih = Cons.IH [OF w' t']
  show ?case
  proof (cases "starts_with ''START WAL LOCATION: '' l")
    case True
    then have "wal_segment_of_line l = Some seg"
      using Cons.prems(1) [of l] by simp
    with True show ?thesis
      by (auto simp add: ih)
  next
    case False
    show ?thesis
    proof (cases "starts_with ''START TIME: '' l")
      case True
      then have "iso_utc_of_start_time zones (drop (length ''START TIME: '') l) = Some tm"
        using Cons.prems(2) [of l] False by simp
      with True False show ?thesis
        by (auto simp add: ih)
    next
      case nt: False
      with False show ?thesis
        by (auto simp add: ih)
    qed
  qed
qed

lemma prefixes_differ:
  assumes "starts_with ''START TIME: '' l"
  shows "\<not> starts_with ''START WAL LOCATION: '' l"
proof
  assume "starts_with ''START WAL LOCATION: '' l"
  then have w: "take (length ''START WAL LOCATION: '') l = ''START WAL LOCATION: ''"
    by (simp only: starts_with_def)
  from assms have t: "take (length ''START TIME: '') l = ''START TIME: ''"
    by (simp only: starts_with_def)
  have "take (length ''START WAL LOCATION: '') l ! 6 = l ! 6"
    by (rule nth_take) simp
  then have 1: "l ! 6 = CHR ''W''" unfolding w by simp
  have "take (length ''START TIME: '') l ! 6 = l ! 6"
    by (rule nth_take) simp
  then have 2: "l ! 6 = CHR ''T''" unfolding t by simp
  from 1 2 show False by simp
qed

lemma parse_backup_label_lines:
  assumes wl: "wal \<in> set (lines_of text)" and tl: "time \<in> set (lines_of text)"
    and wu: "\<forall>l \<in> set (lines_of text). starts_with ''START WAL LOCATION: '' l \<longrightarrow> l = wal"
    and tu: "\<forall>l \<in> set (lines_of text). starts_with ''START TIME: '' l \<longrightarrow> l = time"
    and ws: "starts_with ''START WAL LOCATION: '' wal"
    and ts: "starts_with ''START TIME: '' time"
    and wv: "wal_segment_of_line wal = Some seg"
    and tv: "iso_utc_of_start_time zones (drop (length ''START TIME: '') time) = Some tm"
  shows "parse_backup_label zones text = Some (seg, tm)"
proof -
  have nw: "\<not> starts_with ''START WAL LOCATION: '' time"
    using ts by (rule prefixes_differ)
  have 1: "\<exists>l \<in> set (lines_of text). starts_with ''START WAL LOCATION: '' l"
    using wl ws by blast
  have 2: "\<exists>l \<in> set (lines_of text). \<not> starts_with ''START WAL LOCATION: '' l \<and>
             starts_with ''START TIME: '' l"
    using tl ts nw by blast
  have "scan_label zones (lines_of text) (None, None) =
        Some (if \<exists>l \<in> set (lines_of text). starts_with ''START WAL LOCATION: '' l
              then Some seg else None,
              if \<exists>l \<in> set (lines_of text). \<not> starts_with ''START WAL LOCATION: '' l \<and>
                                  starts_with ''START TIME: '' l then Some tm else None)"
  proof (rule scan_label_found)
    fix l assume "l \<in> set (lines_of text)" "starts_with ''START WAL LOCATION: '' l"
    with wu have "l = wal" by blast
    with wv show "wal_segment_of_line l = Some seg" by simp
  next
    fix l assume "l \<in> set (lines_of text)" "starts_with ''START TIME: '' l"
    with tu have "l = time" by blast
    with tv show "iso_utc_of_start_time zones (drop (length ''START TIME: '') l) = Some tm"
      by simp
  qed
  then have "scan_label zones (lines_of text) (None, None) = Some (Some seg, Some tm)"
    using 1 2 by simp
  then show ?thesis
    by (simp add: parse_backup_label_def)
qed

lemma parse_backup_label_format:
  assumes "lsn \<noteq> []" and "CHR '' '' \<notin> set lsn" and "CHR '' '' \<notin> set seg"
    and "1 \<le> y" "y \<le> 9999" "1 \<le> mo" "mo \<le> 12" "1 \<le> day" "day \<le> days_in_month y mo"
      "h < 24" "mi < 60" "sec < 60"
    and "z = ''GMT'' \<or> z = ''UTC''"
    and "''START WAL LOCATION: '' @ lsn @ '' (file '' @ seg @ '')'' \<in> set (lines_of text)"
    and "''START TIME: '' @ zpad 4 y @ ''-'' @ zpad 2 mo @ ''-'' @ zpad 2 day @ '' '' @
           zpad 2 h @ '':'' @ zpad 2 mi @ '':'' @ zpad 2 sec @ '' '' @ z \<in> set (lines_of text)"
    and "\<forall>l \<in> set (lines_of text). starts_with ''START WAL LOCATION: '' l \<longrightarrow>
           l = ''START WAL LOCATION: '' @ lsn @ '' (file '' @ seg @ '')''"
    and "\<forall>l \<in> set (lines_of text). starts_with ''START TIME: '' l \<longrightarrow>
           l = ''START TIME: '' @ zpad 4 y @ ''-'' @ zpad 2 mo @ ''-'' @ zpad 2 day @ '' '' @
               zpad 2 h @ '':'' @ zpad 2 mi @ '':'' @ zpad 2 sec @ '' '' @ z"
  shows "parse_backup_label zones text =
           Some (seg, zpad 4 y @ ''-'' @ zpad 2 mo @ ''-'' @ zpad 2 day @ ''T'' @
                      zpad 2 h @ '':'' @ zpad 2 mi @ '':'' @ zpad 2 sec @ ''+00:00'')"
proof (rule parse_backup_label_lines [OF assms(14-17)])
  show "starts_with ''START WAL LOCATION: '' (''START WAL LOCATION: '' @ lsn @ '' (file '' @ seg @ '')'')"
    by (simp add: starts_with_def)
  show "starts_with ''START TIME: ''
     (''START TIME: '' @ zpad 4 y @ ''-'' @ zpad 2 mo @ ''-'' @ zpad 2 day @ '' '' @
      zpad 2 h @ '':'' @ zpad 2 mi @ '':'' @ zpad 2 sec @ '' '' @ z)"
    by (simp add: starts_with_def)
  show "wal_segment_of_line (''START WAL LOCATION: '' @ lsn @ '' (file '' @ seg @ '')'') =
        Some seg"
    using assms(1-3) by (rule wal_segment_of_line_format)
  have "drop (length ''START TIME: '')
         (''START TIME: '' @ zpad 4 y @ ''-'' @ zpad 2 mo @ ''-'' @ zpad 2 day @ '' '' @
          zpad 2 h @ '':'' @ zpad 2 mi @ '':'' @ zpad 2 sec @ '' '' @ z) =
        zpad 4 y @ ''-'' @ zpad 2 mo @ ''-'' @ zpad 2 day @ '' '' @
          zpad 2 h @ '':'' @ zpad 2 mi @ '':'' @ zpad 2 sec @ '' '' @ z"
    by simp
  then show "iso_utc_of_start_time zones
     (drop (length ''START TIME: '')
       (''START TIME: '' @ zpad 4 y @ ''-'' @ zpad 2 mo @ ''-'' @ zpad 2 day @ '' '' @
        zpad 2 h @ '':'' @ zpad 2 mi @ '':'' @ zpad 2 sec @ '' '' @ z)) =
     Some (zpad 4 y @ ''-'' @ zpad 2 mo @ ''-'' @ zpad 2 day @ ''T'' @
           zpad 2 h @ '':'' @ zpad 2 mi @ '':'' @ zpad 2 sec @ ''+00:00'')"
    using iso_utc_of_start_time_format [OF assms(4-13), of zones] by simp
qed

lemma parse_backup_label_s2:
  assumes "''START WAL LOCATION: 0/4000028 (file 000000010000000000000004)'' \<in> set (lines_of text)"
    and "''START TIME: 2015-02-12 14:07:19 GMT'' \<in> set (lines_of text)"
    and "\<forall>l \<in> set (lines_of text). starts_with ''START WAL LOCATION: '' l \<longrightarrow>
           l = ''START WAL LOCATION: 0/4000028 (file 000000010000000000000004)''"
    and "\<forall>l \<in> set (lines_of text). starts_with ''START TIME: '' l \<longrightarrow>
           l = ''START TIME: 2015-02-12 14:07:19 GMT''"
  shows "parse_backup_label zones text =
           Some (''000000010000000000000004'', ''2015-02-12T14:07:19+00:00'')"
  by (rule parse_backup_label_lines [OF assms]) (simp_all add: eval_label)

subsection \<open>The archive\<close>

lemma tar_extractfile_tar_add:
  "tar_extractfile (tar_add archive member content) member = Some content"
  by (simp add: tar_extractfile_def tar_add_def)

lemma parse_backup_label_in_tar_added:
  "parse_backup_label_in_tar zones (tar_add archive ''backup_label'' label) =
     parse_backup_label zones label"
  by (simp add: parse_backup_label_in_tar_def tar_extractfile_tar_add)

text \<open>
  Claim C7. Every label that has the lines
  \<^verbatim>\<open>START WAL LOCATION: 0/4000028 (file 000000010000000000000004)\<close> and
  \<^verbatim>\<open>START TIME: 2015-02-12 14:07:19 GMT\<close>, and no other line of either kind, parses to
  the pair of \<open>000000010000000000000004\<close> and \<open>2015-02-12T14:07:19+00:00\<close>, whatever its
  other lines are and wherever the two lines stand; the label of the test is one. The
  same holds for every segment and every start time in \<^verbatim>\<open>GMT\<close> or \<^verbatim>\<open>UTC\<close>: the result
  is the segment between \<^verbatim>\<open>(file\<close> and the closing parenthesis and the date and the time
  of day joined by \<^verbatim>\<open>T\<close>, with the offset \<^verbatim>\<open>+00:00\<close>. For every archive and every label,
  adding the label to the archive under the name \<^verbatim>\<open>backup_label\<close> and parsing the
  archive gives what parsing the text of the label gives, the failure included; parsing
  an archive is parsing the member that \<^verbatim>\<open>extractfile\<close> finds, and fails when there is
  none.
\<close>

theorem parse_backup_label_roundtrip:
  "(\<forall>label.
      ''START WAL LOCATION: 0/4000028 (file 000000010000000000000004)'' \<in> set (lines_of label) \<and>
      ''START TIME: 2015-02-12 14:07:19 GMT'' \<in> set (lines_of label) \<and>
      (\<forall>l \<in> set (lines_of label). starts_with ''START WAL LOCATION: '' l \<longrightarrow>
         l = ''START WAL LOCATION: 0/4000028 (file 000000010000000000000004)'') \<and>
      (\<forall>l \<in> set (lines_of label). starts_with ''START TIME: '' l \<longrightarrow>
         l = ''START TIME: 2015-02-12 14:07:19 GMT'') \<longrightarrow>
      parse_backup_label zones label =
        Some (''000000010000000000000004'', ''2015-02-12T14:07:19+00:00''))
   \<and> parse_backup_label zones test_backup_label =
        Some (''000000010000000000000004'', ''2015-02-12T14:07:19+00:00'')
   \<and> (\<forall>label lsn seg y mo day h mi sec z.
        lsn \<noteq> [] \<and> CHR '' '' \<notin> set lsn \<and> CHR '' '' \<notin> set seg \<and>
        1 \<le> y \<and> y \<le> 9999 \<and> 1 \<le> mo \<and> mo \<le> 12 \<and> 1 \<le> day \<and> day \<le> days_in_month y mo \<and>
        h < 24 \<and> mi < 60 \<and> sec < 60 \<and> (z = ''GMT'' \<or> z = ''UTC'') \<and>
        ''START WAL LOCATION: '' @ lsn @ '' (file '' @ seg @ '')'' \<in> set (lines_of label) \<and>
        ''START TIME: '' @ zpad 4 y @ ''-'' @ zpad 2 mo @ ''-'' @ zpad 2 day @ '' '' @
           zpad 2 h @ '':'' @ zpad 2 mi @ '':'' @ zpad 2 sec @ '' '' @ z \<in> set (lines_of label) \<and>
        (\<forall>l \<in> set (lines_of label). starts_with ''START WAL LOCATION: '' l \<longrightarrow>
           l = ''START WAL LOCATION: '' @ lsn @ '' (file '' @ seg @ '')'') \<and>
        (\<forall>l \<in> set (lines_of label). starts_with ''START TIME: '' l \<longrightarrow>
           l = ''START TIME: '' @ zpad 4 y @ ''-'' @ zpad 2 mo @ ''-'' @ zpad 2 day @ '' '' @
               zpad 2 h @ '':'' @ zpad 2 mi @ '':'' @ zpad 2 sec @ '' '' @ z) \<longrightarrow>
        parse_backup_label zones label =
          Some (seg, zpad 4 y @ ''-'' @ zpad 2 mo @ ''-'' @ zpad 2 day @ ''T'' @
                     zpad 2 h @ '':'' @ zpad 2 mi @ '':'' @ zpad 2 sec @ ''+00:00''))
   \<and> (\<forall>archive label.
        parse_backup_label_in_tar zones (tar_add archive ''backup_label'' label) =
          parse_backup_label zones label)
   \<and> (\<forall>archive label. tar_extractfile archive ''backup_label'' = Some label \<longrightarrow>
        parse_backup_label_in_tar zones archive = parse_backup_label zones label)
   \<and> (\<forall>archive. tar_extractfile archive ''backup_label'' = None \<longrightarrow>
        parse_backup_label_in_tar zones archive = None)"
proof (intro conjI allI impI)
  fix body
  assume "''START WAL LOCATION: 0/4000028 (file 000000010000000000000004)'' \<in> set (lines_of body) \<and>
      ''START TIME: 2015-02-12 14:07:19 GMT'' \<in> set (lines_of body) \<and>
      (\<forall>l \<in> set (lines_of body). starts_with ''START WAL LOCATION: '' l \<longrightarrow>
         l = ''START WAL LOCATION: 0/4000028 (file 000000010000000000000004)'') \<and>
      (\<forall>l \<in> set (lines_of body). starts_with ''START TIME: '' l \<longrightarrow>
         l = ''START TIME: 2015-02-12 14:07:19 GMT'')"
  then show "parse_backup_label zones body =
        Some (''000000010000000000000004'', ''2015-02-12T14:07:19+00:00'')"
    by (intro parse_backup_label_s2) blast+
next
  show "parse_backup_label zones test_backup_label =
        Some (''000000010000000000000004'', ''2015-02-12T14:07:19+00:00'')"
    by (rule parse_test_backup_label)
next
  fix body lsn seg y mo day h mi sec z
  assume a: "lsn \<noteq> [] \<and> CHR '' '' \<notin> set lsn \<and> CHR '' '' \<notin> set seg \<and>
        1 \<le> y \<and> y \<le> 9999 \<and> 1 \<le> mo \<and> mo \<le> 12 \<and> 1 \<le> day \<and> day \<le> days_in_month y mo \<and>
        h < 24 \<and> mi < 60 \<and> sec < 60 \<and> (z = ''GMT'' \<or> z = ''UTC'') \<and>
        ''START WAL LOCATION: '' @ lsn @ '' (file '' @ seg @ '')'' \<in> set (lines_of body) \<and>
        ''START TIME: '' @ zpad 4 y @ ''-'' @ zpad 2 mo @ ''-'' @ zpad 2 day @ '' '' @
           zpad 2 h @ '':'' @ zpad 2 mi @ '':'' @ zpad 2 sec @ '' '' @ z \<in> set (lines_of body) \<and>
        (\<forall>l \<in> set (lines_of body). starts_with ''START WAL LOCATION: '' l \<longrightarrow>
           l = ''START WAL LOCATION: '' @ lsn @ '' (file '' @ seg @ '')'') \<and>
        (\<forall>l \<in> set (lines_of body). starts_with ''START TIME: '' l \<longrightarrow>
           l = ''START TIME: '' @ zpad 4 y @ ''-'' @ zpad 2 mo @ ''-'' @ zpad 2 day @ '' '' @
               zpad 2 h @ '':'' @ zpad 2 mi @ '':'' @ zpad 2 sec @ '' '' @ z)"
  from a have p: "lsn \<noteq> []" "CHR '' '' \<notin> set lsn" "CHR '' '' \<notin> set seg"
    "1 \<le> y" "y \<le> 9999" "1 \<le> mo" "mo \<le> 12" "1 \<le> day" "day \<le> days_in_month y mo"
    "h < 24" "mi < 60" "sec < 60" "z = ''GMT'' \<or> z = ''UTC''"
    "''START WAL LOCATION: '' @ lsn @ '' (file '' @ seg @ '')'' \<in> set (lines_of body)"
    "''START TIME: '' @ zpad 4 y @ ''-'' @ zpad 2 mo @ ''-'' @ zpad 2 day @ '' '' @
       zpad 2 h @ '':'' @ zpad 2 mi @ '':'' @ zpad 2 sec @ '' '' @ z \<in> set (lines_of body)"
    "\<forall>l \<in> set (lines_of body). starts_with ''START WAL LOCATION: '' l \<longrightarrow>
       l = ''START WAL LOCATION: '' @ lsn @ '' (file '' @ seg @ '')''"
    "\<forall>l \<in> set (lines_of body). starts_with ''START TIME: '' l \<longrightarrow>
       l = ''START TIME: '' @ zpad 4 y @ ''-'' @ zpad 2 mo @ ''-'' @ zpad 2 day @ '' '' @
           zpad 2 h @ '':'' @ zpad 2 mi @ '':'' @ zpad 2 sec @ '' '' @ z"
    by simp_all
  show "parse_backup_label zones body =
          Some (seg, zpad 4 y @ ''-'' @ zpad 2 mo @ ''-'' @ zpad 2 day @ ''T'' @
                     zpad 2 h @ '':'' @ zpad 2 mi @ '':'' @ zpad 2 sec @ ''+00:00'')"
    using p by (rule parse_backup_label_format)
next
  fix archive label
  show "parse_backup_label_in_tar zones (tar_add archive ''backup_label'' label) =
          parse_backup_label zones label"
    by (rule parse_backup_label_in_tar_added)
next
  fix archive label
  assume "tar_extractfile archive ''backup_label'' = Some label"
  then show "parse_backup_label_in_tar zones archive = parse_backup_label zones label"
    by (simp add: parse_backup_label_in_tar_def)
next
  fix archive
  assume "tar_extractfile archive ''backup_label'' = None"
  then show "parse_backup_label_in_tar zones archive = None"
    by (simp add: parse_backup_label_in_tar_def)
qed

theorem parse_backup_label_roundtrip_witness:
  "parse_backup_label no_zones
     (''LABEL: pg_basebackup base backup'' @ [CHR 0x0A] @
      ''START TIME: 2015-02-12 14:07:19 GMT'' @ [CHR 0x0A] @
      ''START WAL LOCATION: 0/4000028 (file 000000010000000000000004)'') =
     Some (''000000010000000000000004'', ''2015-02-12T14:07:19+00:00'')
   \<and> parse_backup_label no_zones
     (''START WAL LOCATION: 1/A0 (file 0000000100000001000000A0)'' @ [CHR 0x0A] @
      ''START TIME: 2024-02-29 00:00:59 UTC'' @ [CHR 0x0A]) =
     Some (''0000000100000001000000A0'', ''2024-02-29T00:00:59+00:00'')
   \<and> tar_extractfile [(''backup_label'', test_backup_label), (''PG_VERSION'', ''9.4'')]
        ''backup_label'' = Some test_backup_label
   \<and> parse_backup_label_in_tar no_zones
        [(''backup_label'', test_backup_label), (''PG_VERSION'', ''9.4'')] =
     Some (''000000010000000000000004'', ''2015-02-12T14:07:19+00:00'')
   \<and> parse_backup_label_in_tar no_zones
        (tar_add [(''backup_label'', ''old''), (''PG_VERSION'', ''9.4'')] ''backup_label''
           test_backup_label) =
     Some (''000000010000000000000004'', ''2015-02-12T14:07:19+00:00'')"
proof -
  note t = parse_backup_label_roundtrip [of no_zones]
  note t1 = t [THEN conjunct1, rule_format]
  note t2 = t [THEN conjunct2, THEN conjunct1]
  note t3 = t [THEN conjunct2, THEN conjunct2, THEN conjunct1, rule_format]
  note t4 = t [THEN conjunct2, THEN conjunct2, THEN conjunct2, THEN conjunct1, rule_format]
  note t5 = t [THEN conjunct2, THEN conjunct2, THEN conjunct2, THEN conjunct2, THEN conjunct1,
      rule_format]
  let ?text1 = "''LABEL: pg_basebackup base backup'' @ [CHR 0x0A] @
      ''START TIME: 2015-02-12 14:07:19 GMT'' @ [CHR 0x0A] @
      ''START WAL LOCATION: 0/4000028 (file 000000010000000000000004)''"
  have l1: "lines_of ?text1 =
      [''LABEL: pg_basebackup base backup'', ''START TIME: 2015-02-12 14:07:19 GMT'',
       ''START WAL LOCATION: 0/4000028 (file 000000010000000000000004)'']"
    by (simp add: lines_of_def)
  have h1: "''START WAL LOCATION: 0/4000028 (file 000000010000000000000004)'' \<in> set (lines_of ?text1) \<and>
      ''START TIME: 2015-02-12 14:07:19 GMT'' \<in> set (lines_of ?text1) \<and>
      (\<forall>l \<in> set (lines_of ?text1). starts_with ''START WAL LOCATION: '' l \<longrightarrow>
         l = ''START WAL LOCATION: 0/4000028 (file 000000010000000000000004)'') \<and>
      (\<forall>l \<in> set (lines_of ?text1). starts_with ''START TIME: '' l \<longrightarrow>
         l = ''START TIME: 2015-02-12 14:07:19 GMT'')"
    unfolding l1 by (simp add: starts_with_def)
  have a: "parse_backup_label no_zones ?text1 =
     Some (''000000010000000000000004'', ''2015-02-12T14:07:19+00:00'')"
    using h1 by (rule t1)
  let ?text2 = "''START WAL LOCATION: 1/A0 (file 0000000100000001000000A0)'' @ [CHR 0x0A] @
      ''START TIME: 2024-02-29 00:00:59 UTC'' @ [CHR 0x0A]"
  let ?w = "''START WAL LOCATION: '' @ ''1/A0'' @ '' (file '' @ ''0000000100000001000000A0'' @ '')''"
  let ?s = "''START TIME: '' @ zpad 4 2024 @ ''-'' @ zpad 2 2 @ ''-'' @ zpad 2 29 @ '' '' @
           zpad 2 0 @ '':'' @ zpad 2 0 @ '':'' @ zpad 2 59 @ '' '' @ ''UTC''"
  have w: "?w = ''START WAL LOCATION: 1/A0 (file 0000000100000001000000A0)''" by simp
  have s: "?s = ''START TIME: 2024-02-29 00:00:59 UTC''"
    by (simp add: zpad_def show_nat.simps digit_char_def)
  have l2: "lines_of ?text2 =
      [''START WAL LOCATION: 1/A0 (file 0000000100000001000000A0)'',
       ''START TIME: 2024-02-29 00:00:59 UTC'', []]"
    by (simp add: lines_of_def)
  have h2: "''1/A0'' \<noteq> [] \<and> CHR '' '' \<notin> set ''1/A0'' \<and>
        CHR '' '' \<notin> set ''0000000100000001000000A0'' \<and>
        1 \<le> (2024::nat) \<and> (2024::nat) \<le> 9999 \<and> 1 \<le> (2::nat) \<and> (2::nat) \<le> 12 \<and>
        1 \<le> (29::nat) \<and> 29 \<le> days_in_month 2024 2 \<and>
        (0::nat) < 24 \<and> (0::nat) < 60 \<and> (59::nat) < 60 \<and> (''UTC'' = ''GMT'' \<or> ''UTC'' = ''UTC'') \<and>
        ?w \<in> set (lines_of ?text2) \<and> ?s \<in> set (lines_of ?text2) \<and>
        (\<forall>l \<in> set (lines_of ?text2). starts_with ''START WAL LOCATION: '' l \<longrightarrow> l = ?w) \<and>
        (\<forall>l \<in> set (lines_of ?text2). starts_with ''START TIME: '' l \<longrightarrow> l = ?s)"
    unfolding l2 w s by (simp add: starts_with_def days_in_month_def leap_year_def)
  have r: "zpad 4 2024 @ ''-'' @ zpad 2 2 @ ''-'' @ zpad 2 29 @ ''T'' @
           zpad 2 0 @ '':'' @ zpad 2 0 @ '':'' @ zpad 2 59 @ ''+00:00'' =
           ''2024-02-29T00:00:59+00:00''"
    by (simp add: zpad_def show_nat.simps digit_char_def)
  have "parse_backup_label no_zones ?text2 =
     Some (''0000000100000001000000A0'',
           zpad 4 2024 @ ''-'' @ zpad 2 2 @ ''-'' @ zpad 2 29 @ ''T'' @
           zpad 2 0 @ '':'' @ zpad 2 0 @ '':'' @ zpad 2 59 @ ''+00:00'')"
    using h2 by (rule t3)
  then have b: "parse_backup_label no_zones ?text2 =
     Some (''0000000100000001000000A0'', ''2024-02-29T00:00:59+00:00'')"
    unfolding r .
  have m: "tar_extractfile [(''backup_label'', test_backup_label), (''PG_VERSION'', ''9.4'')]
        ''backup_label'' = Some test_backup_label"
    by (simp add: tar_extractfile_def)
  have c: "parse_backup_label_in_tar no_zones
        [(''backup_label'', test_backup_label), (''PG_VERSION'', ''9.4'')] =
     Some (''000000010000000000000004'', ''2015-02-12T14:07:19+00:00'')"
    unfolding t5 [OF m] by (rule t2)
  have d: "parse_backup_label_in_tar no_zones
        (tar_add [(''backup_label'', ''old''), (''PG_VERSION'', ''9.4'')] ''backup_label''
           test_backup_label) =
     Some (''000000010000000000000004'', ''2015-02-12T14:07:19+00:00'')"
    unfolding t4 by (rule t2)
  show ?thesis
    by (intro conjI a b m c d)
qed

section \<open>The scheduler\<close>

lemma normalized_1520:
  "normalized_time test_site_config (86400 * d + 55230) = Some (86400 * d + 52800)"
  by (simp add: normalized_time_def test_site_config_def Let_def)

lemma normalized_1620:
  "normalized_time test_site_config (86400 * d + 55230 + 3600) = Some (86400 * d + 58200)"
proof -
  have "86400 * d + 55230 + 3600 = 86400 * d + (58830::int)" by simp
  then show ?thesis
    by (simp add: normalized_time_def test_site_config_def Let_def)
qed

lemma time_of_day_1440: "time_of_day_iso (86400 * d + 52800) = ''T14:40:00+00:00''"
  by (simp add: time_of_day_iso_def Let_def zpad_def show_nat.simps digit_char_def)

lemma time_of_day_1610: "time_of_day_iso (86400 * d + 58200) = ''T16:10:00+00:00''"
  by (simp add: time_of_day_iso_def Let_def zpad_def show_nat.simps digit_char_def)

lemma decide_no_backups:
  "get_new_backup_details test_site_config (86400 * d + 55230) [] False False =
     (Some \<lparr>backup_reason = scheduled, backup_decision_time = 86400 * d + 55230,
            normalized_backup_time = Some (86400 * d + 52800)\<rparr>, False)"
  by (simp add: get_new_backup_details_def normalized_1520)

lemma decide_same_window:
  assumes "entry_normalized_backup_time b = Some (86400 * d + 52800)"
  shows "get_new_backup_details test_site_config (86400 * d + 55230) [b] False False =
           (None, False)"
  using assms by (simp add: get_new_backup_details_def normalized_1520)

lemma decide_next_window:
  assumes "entry_normalized_backup_time b = Some (86400 * d + 52800)"
    and "entry_decision_time b \<le> 86400 * d + 55230"
  shows "get_new_backup_details test_site_config (86400 * d + 55230 + 3600) [b] False False =
           (Some \<lparr>backup_reason = scheduled, backup_decision_time = 86400 * d + 55230 + 3600,
                  normalized_backup_time = Some (86400 * d + 58200)\<rparr>, False)"
proof -
  have i: "basebackup_interval test_site_config = 5400"
    by (simp add: test_site_config_def)
  have "last_scheduled_isnt_too_recent test_site_config (86400 * d + 55230 + 3600) [b]"
    unfolding last_scheduled_isnt_too_recent_def i using assms(2) by simp
  then show ?thesis
    unfolding get_new_backup_details_def normalized_1620
    using assms(1) by simp
qed

lemma decide_next_window_test:
  "get_new_backup_details test_site_config (86400 * d + 55230 + 3600)
       [test_last_backup d] False False =
     (Some \<lparr>backup_reason = scheduled, backup_decision_time = 86400 * d + 55230 + 3600,
            normalized_backup_time = Some (86400 * d + 58200)\<rparr>, False)"
  by (rule decide_next_window) (simp_all add: test_last_backup_def)

subsection \<open>The other cases of \<^verbatim>\<open>test_get_new_backup_details\<close>\<close>

lemma normalized_12_1620:
  "normalized_time test_site_config_12 (86400 * d + 55230 + 3600) = Some (86400 * d + 53400)"
proof -
  have "86400 * d + 55230 + 3600 = 86400 * d + (58830::int)" by simp
  then show ?thesis
    by (simp add: normalized_time_def test_site_config_12_def Let_def)
qed

lemma normalized_12_2220:
  "normalized_time test_site_config_12 (86400 * d + 55230 + 25200) = Some (86400 * d + 53400)"
proof -
  have "86400 * d + 55230 + 25200 = 86400 * d + (80430::int)" by simp
  then show ?thesis
    by (simp add: normalized_time_def test_site_config_12_def Let_def)
qed

lemma time_of_day_1450: "time_of_day_iso (86400 * d + 53400) = ''T14:50:00+00:00''"
  by (simp add: time_of_day_iso_def Let_def zpad_def show_nat.simps digit_char_def)

text \<open>Lines 746 to 761: no backups; without a schedule, and at 13:10 every day.\<close>

lemma test_no_backups:
  "get_new_backup_details test_site_config_unscheduled (86400 * d + 55230) [] False False =
     (Some \<lparr>backup_reason = scheduled, backup_decision_time = 86400 * d + 55230,
            normalized_backup_time = None\<rparr>, False)"
  "get_new_backup_details test_site_config_daily (86400 * d + 55230) [] False False =
     (Some \<lparr>backup_reason = scheduled, backup_decision_time = 86400 * d + 55230,
            normalized_backup_time = Some (86400 * d + 47400)\<rparr>, False)"
  "time_of_day_iso (86400 * d + 47400) = ''T13:10:00+00:00''"
  by (simp_all add: get_new_backup_details_def normalized_time_def Let_def
      test_site_config_unscheduled_def test_site_config_daily_def
      time_of_day_iso_def zpad_def show_nat.simps digit_char_def)

text \<open>
  Lines 797 to 809: with an interval of twelve hours and the schedule 14:50, no backup
  at 16:20:30, two hours after the scheduled backup was decided, and a backup at 22:20:30.
\<close>

lemma test_floor:
  "get_new_backup_details test_site_config_12 (86400 * d + 55230 + 3600)
       [test_last_backup d] False False = (None, False)"
  "get_new_backup_details test_site_config_12 (86400 * d + 55230 + 25200)
       [test_last_backup d] False False =
     (Some \<lparr>backup_reason = scheduled, backup_decision_time = 86400 * d + 55230 + 25200,
            normalized_backup_time = Some (86400 * d + 53400)\<rparr>, False)"
proof -
  show "get_new_backup_details test_site_config_12 (86400 * d + 55230 + 3600)
       [test_last_backup d] False False = (None, False)"
    unfolding get_new_backup_details_def normalized_12_1620
    by (simp add: last_scheduled_isnt_too_recent_def test_last_backup_def
        test_site_config_12_def)
  show "get_new_backup_details test_site_config_12 (86400 * d + 55230 + 25200)
       [test_last_backup d] False False =
     (Some \<lparr>backup_reason = scheduled, backup_decision_time = 86400 * d + 55230 + 25200,
            normalized_backup_time = Some (86400 * d + 53400)\<rparr>, False)"
    unfolding get_new_backup_details_def normalized_12_2220
    by (simp add: last_scheduled_isnt_too_recent_def test_last_backup_def
        test_site_config_12_def)
qed

text \<open>
  Lines 811 to 837: a requested backup that started an hour ago does not prevent the
  scheduled one as long as its normalized time differs; it does when the normalized
  time is the same; a manual trigger always gives a backup, for the reason \<open>requested\<close>.
\<close>

lemma test_requested:
  "n \<noteq> Some (86400 * d + 53400) \<Longrightarrow>
   get_new_backup_details test_site_config_12 (86400 * d + 55230 + 25200)
       [test_last_backup d, test_requested_backup d n] False False =
     (Some \<lparr>backup_reason = scheduled, backup_decision_time = 86400 * d + 55230 + 25200,
            normalized_backup_time = Some (86400 * d + 53400)\<rparr>, False)"
  "get_new_backup_details test_site_config_12 (86400 * d + 55230 + 25200)
       [test_last_backup d, test_requested_backup d (Some (86400 * d + 53400))] False False =
     (None, False)"
  "get_new_backup_details test_site_config_12 (86400 * d + 55230 + 25200)
       [test_last_backup d, test_requested_backup d (Some (86400 * d + 53400))] False True =
     (Some \<lparr>backup_reason = requested, backup_decision_time = 86400 * d + 55230 + 25200,
            normalized_backup_time = Some (86400 * d + 53400)\<rparr>, False)"
proof -
  show "n \<noteq> Some (86400 * d + 53400) \<Longrightarrow>
   get_new_backup_details test_site_config_12 (86400 * d + 55230 + 25200)
       [test_last_backup d, test_requested_backup d n] False False =
     (Some \<lparr>backup_reason = scheduled, backup_decision_time = 86400 * d + 55230 + 25200,
            normalized_backup_time = Some (86400 * d + 53400)\<rparr>, False)"
    unfolding get_new_backup_details_def normalized_12_2220
    by (auto simp add: last_scheduled_isnt_too_recent_def test_last_backup_def
        test_requested_backup_def test_site_config_12_def)
  show "get_new_backup_details test_site_config_12 (86400 * d + 55230 + 25200)
       [test_last_backup d, test_requested_backup d (Some (86400 * d + 53400))] False False =
     (None, False)"
    unfolding get_new_backup_details_def normalized_12_2220
    by (simp add: last_scheduled_isnt_too_recent_def test_last_backup_def
        test_requested_backup_def test_site_config_12_def)
  show "get_new_backup_details test_site_config_12 (86400 * d + 55230 + 25200)
       [test_last_backup d, test_requested_backup d (Some (86400 * d + 53400))] False True =
     (Some \<lparr>backup_reason = requested, backup_decision_time = 86400 * d + 55230 + 25200,
            normalized_backup_time = Some (86400 * d + 53400)\<rparr>, False)"
    unfolding get_new_backup_details_def normalized_12_2220
    by simp
qed

text \<open>
  Claim C4. For the site with hour 13, minute 10 and an interval of 1.5 hours, on any
  day, at 15:20:30 UTC: with no existing backup the scheduler decides to back up, for the
  reason \<open>scheduled\<close>, the decision time being now and the normalized time 14:40:00 of
  that day; with an existing backup of that normalized time it decides not to back up;
  and one hour later it decides to back up, for the reason \<open>scheduled\<close>, with the
  normalized time 16:10:00 of that day. The last decision is the same for the backup of
  the test and for every existing backup of that normalized time, an existing backup
  being one that was decided at 15:20:30 or before.
\<close>

theorem get_new_backup_details_windows:
  "get_new_backup_details test_site_config (86400 * d + 55230) [] False False =
     (Some \<lparr>backup_reason = scheduled, backup_decision_time = 86400 * d + 55230,
            normalized_backup_time = Some (86400 * d + 52800)\<rparr>, False)
   \<and> time_of_day_iso (86400 * d + 55230) = ''T15:20:30+00:00''
   \<and> time_of_day_iso (86400 * d + 52800) = ''T14:40:00+00:00''
   \<and> (\<forall>b. entry_normalized_backup_time b = Some (86400 * d + 52800) \<longrightarrow>
         get_new_backup_details test_site_config (86400 * d + 55230) [b] False False =
           (None, False))
   \<and> get_new_backup_details test_site_config (86400 * d + 55230 + 3600)
         [test_last_backup d] False False =
       (Some \<lparr>backup_reason = scheduled, backup_decision_time = 86400 * d + 55230 + 3600,
              normalized_backup_time = Some (86400 * d + 58200)\<rparr>, False)
   \<and> (\<forall>b. entry_normalized_backup_time b = Some (86400 * d + 52800) \<and>
            entry_decision_time b \<le> 86400 * d + 55230 \<longrightarrow>
         get_new_backup_details test_site_config (86400 * d + 55230 + 3600) [b] False False =
           (Some \<lparr>backup_reason = scheduled, backup_decision_time = 86400 * d + 55230 + 3600,
                  normalized_backup_time = Some (86400 * d + 58200)\<rparr>, False))
   \<and> time_of_day_iso (86400 * d + 58200) = ''T16:10:00+00:00''"
proof -
  have t: "time_of_day_iso (86400 * d + 55230) = ''T15:20:30+00:00''"
    by (simp add: time_of_day_iso_def Let_def zpad_def show_nat.simps digit_char_def)
  have s: "\<forall>b. entry_normalized_backup_time b = Some (86400 * d + 52800) \<longrightarrow>
         get_new_backup_details test_site_config (86400 * d + 55230) [b] False False =
           (None, False)"
    using decide_same_window by blast
  have n: "\<forall>b. entry_normalized_backup_time b = Some (86400 * d + 52800) \<and>
            entry_decision_time b \<le> 86400 * d + 55230 \<longrightarrow>
         get_new_backup_details test_site_config (86400 * d + 55230 + 3600) [b] False False =
           (Some \<lparr>backup_reason = scheduled, backup_decision_time = 86400 * d + 55230 + 3600,
                  normalized_backup_time = Some (86400 * d + 58200)\<rparr>, False)"
    using decide_next_window by blast
  show ?thesis
    by (intro conjI decide_no_backups t time_of_day_1440 s decide_next_window_test n
        time_of_day_1610)
qed

theorem get_new_backup_details_windows_witness:
  "entry_normalized_backup_time (test_last_backup 19000) = Some (86400 * 19000 + 52800)
   \<and> entry_decision_time (test_last_backup 19000) \<le> 86400 * 19000 + 55230
   \<and> get_new_backup_details test_site_config (86400 * 19000 + 55230)
       [test_last_backup 19000] False False = (None, False)
   \<and> get_new_backup_details test_site_config (86400 * 19000 + 55230 + 3600)
       [test_last_backup 19000] False False =
       (Some \<lparr>backup_reason = scheduled, backup_decision_time = 86400 * 19000 + 55230 + 3600,
              normalized_backup_time = Some (86400 * 19000 + 58200)\<rparr>, False)"
proof -
  have h1: "entry_normalized_backup_time (test_last_backup 19000) =
            Some (86400 * 19000 + 52800)"
    by (simp add: test_last_backup_def)
  have h2: "entry_decision_time (test_last_backup 19000) \<le> 86400 * 19000 + 55230"
    by (simp add: test_last_backup_def)
  note t = get_new_backup_details_windows [of 19000]
  from t h1 have a: "get_new_backup_details test_site_config (86400 * 19000 + 55230)
       [test_last_backup 19000] False False = (None, False)"
    by blast
  from t h1 h2 have b: "get_new_backup_details test_site_config (86400 * 19000 + 55230 + 3600)
       [test_last_backup 19000] False False =
       (Some \<lparr>backup_reason = scheduled, backup_decision_time = 86400 * 19000 + 55230 + 3600,
              normalized_backup_time = Some (86400 * 19000 + 58200)\<rparr>, False)"
    by blast
  show ?thesis
    by (intro conjI h1 h2 a b)
qed

section \<open>The files to back up and their chunks\<close>

subsection \<open>Self-contained chunks\<close>

lemma self_contained_Nil: "self_contained root []"
  by (simp add: self_contained_def)

lemma self_contained_snoc:
  assumes c: "self_contained root c"
    and e: "\<And>k. length root < k \<Longrightarrow> k < length (archive_path e) \<Longrightarrow>
              \<exists>j < length c. is_dir (c ! j) \<and> archive_path (c ! j) = take k (archive_path e)"
  shows "self_contained root (c @ [e])"
  unfolding self_contained_def
proof (intro ballI)
  fix i k
  assume i: "i \<in> {..<length (c @ [e])}"
    and k: "k \<in> {length root <..< length (archive_path ((c @ [e]) ! i))}"
  show "\<exists>j \<in> {..<i}. is_dir ((c @ [e]) ! j) \<and>
          archive_path ((c @ [e]) ! j) = take k (archive_path ((c @ [e]) ! i))"
  proof (cases "i < length c")
    case True
    then have ci: "(c @ [e]) ! i = c ! i" by (simp add: nth_append)
    from True have "i \<in> {..<length c}" by simp
    with c have "\<forall>k \<in> {length root <..< length (archive_path (c ! i))}.
        \<exists>j \<in> {..<i}. is_dir (c ! j) \<and> archive_path (c ! j) = take k (archive_path (c ! i))"
      unfolding self_contained_def by blast
    moreover from k ci have "k \<in> {length root <..< length (archive_path (c ! i))}"
      by simp
    ultimately have "\<exists>j \<in> {..<i}. is_dir (c ! j) \<and>
        archive_path (c ! j) = take k (archive_path (c ! i))"
      by (rule bspec)
    then obtain j where j: "j < i" "is_dir (c ! j)"
      "archive_path (c ! j) = take k (archive_path (c ! i))"
      by auto
    from j(1) True have cj: "(c @ [e]) ! j = c ! j" by (simp add: nth_append)
    show ?thesis
    proof (rule bexI [of _ j])
      show "is_dir ((c @ [e]) ! j) \<and>
          archive_path ((c @ [e]) ! j) = take k (archive_path ((c @ [e]) ! i))"
        unfolding cj ci using j by simp
      show "j \<in> {..<i}" using j(1) by simp
    qed
  next
    case False
    with i have il: "i = length c" by simp
    then have ci: "(c @ [e]) ! i = e" by simp
    from k ci have "length root < k" "k < length (archive_path e)" by simp_all
    from e [OF this] obtain j where j: "j < length c" "is_dir (c ! j)"
      "archive_path (c ! j) = take k (archive_path e)" by blast
    from j(1) have cj: "(c @ [e]) ! j = c ! j" by (simp add: nth_append)
    show ?thesis
    proof (rule bexI [of _ j])
      show "is_dir ((c @ [e]) ! j) \<and>
          archive_path ((c @ [e]) ! j) = take k (archive_path ((c @ [e]) ! i))"
        unfolding cj ci using j by simp
      show "j \<in> {..<i}" using j(1) il by simp
    qed
  qed
qed

subsection \<open>The open directories\<close>

lemma stack_for_Nil: "stack_for root root []"
  by (simp add: stack_for_def)

lemma stack_for_self_contained:
  assumes "stack_for root q stk"
  shows "self_contained root stk"
  unfolding self_contained_def
proof (intro ballI)
  fix i k
  assume i: "i \<in> {..<length stk}"
    and k: "k \<in> {length root <..< length (archive_path (stk ! i))}"
  from assms i have len: "length stk = length q - length root"
    and pi: "archive_path (stk ! i) = take (length root + 1 + i) q"
    by (simp_all add: stack_for_def)
  from k pi have k1: "length root < k" and k2: "k < length root + 1 + i"
    by simp_all
  let ?j = "k - length root - 1"
  have j: "?j < i" using k1 k2 by simp
  with i have jl: "?j \<in> {..<length stk}" by simp
  from assms jl have dj: "is_dir (stk ! ?j)"
    and pj: "archive_path (stk ! ?j) = take (length root + 1 + ?j) q"
    by (simp_all add: stack_for_def)
  have "length root + 1 + ?j = k" using k1 by simp
  with pj have "archive_path (stk ! ?j) = take k q" by simp
  also have "\<dots> = take k (archive_path (stk ! i))"
    using k2 by (simp add: pi min_def)
  finally have pj': "archive_path (stk ! ?j) = take k (archive_path (stk ! i))" .
  show "\<exists>j \<in> {..<i}. is_dir (stk ! j) \<and>
      archive_path (stk ! j) = take k (archive_path (stk ! i))"
  proof (rule bexI [of _ ?j])
    show "is_dir (stk ! ?j) \<and> archive_path (stk ! ?j) = take k (archive_path (stk ! i))"
      using dj pj' by simp
    show "?j \<in> {..<i}" using j by simp
  qed
qed

lemma stack_for_ancestor:
  assumes s: "stack_for root q stk" and k1: "length root < k" and k2: "k \<le> length q"
  shows "\<exists>e \<in> set stk. is_dir e \<and> archive_path e = take k q"
proof -
  let ?j = "k - length root - 1"
  from s have len: "length stk = length q - length root" by (simp add: stack_for_def)
  have jl: "?j < length stk" using k1 k2 len by simp
  then have "?j \<in> {..<length stk}" by simp
  with s have "is_dir (stk ! ?j)"
    and "archive_path (stk ! ?j) = take (length root + 1 + ?j) q"
    by (simp_all add: stack_for_def)
  moreover have "length root + 1 + ?j = k" using k1 by simp
  ultimately have "is_dir (stk ! ?j) \<and> archive_path (stk ! ?j) = take k q" by simp
  with jl show ?thesis using nth_mem by blast
qed

lemma stack_for_push:
  assumes s: "stack_for root q stk" and e: "is_dir e" "archive_path e = q @ [n]"
  shows "stack_for root (q @ [n]) (stk @ [e])"
  unfolding stack_for_def
proof (intro conjI ballI)
  from s have len: "length stk = length q - length root" and le: "length root \<le> length q"
    by (simp_all add: stack_for_def)
  show "length root \<le> length (q @ [n])" using le by simp
  show "length (stk @ [e]) = length (q @ [n]) - length root" using len le by simp
  fix i assume i: "i \<in> {..<length (stk @ [e])}"
  show "is_dir ((stk @ [e]) ! i)"
  proof (cases "i < length stk")
    case True
    with s show ?thesis by (simp add: stack_for_def nth_append)
  next
    case False
    with i have "i = length stk" by simp
    with e show ?thesis by simp
  qed
  show "archive_path ((stk @ [e]) ! i) = take (length root + 1 + i) (q @ [n])"
  proof (cases "i < length stk")
    case True
    then have "length root + 1 + i \<le> length q" using len by simp
    with s True show ?thesis by (simp add: stack_for_def nth_append)
  next
    case False
    with i have il: "i = length stk" by simp
    then have "length root + 1 + i = length q + 1" using len le by simp
    with e il show ?thesis by simp
  qed
qed

lemma stack_for_pop:
  assumes s: "stack_for root (q @ [n]) stk" and le: "length root \<le> length q"
  shows "stack_for root q (butlast stk)"
  unfolding stack_for_def
proof (intro conjI ballI)
  from s have len: "length stk = length q + 1 - length root" by (simp add: stack_for_def)
  show "length root \<le> length q" by (rule le)
  show "length (butlast stk) = length q - length root" using len le by simp
  fix i assume i: "i \<in> {..<length (butlast stk)}"
  then have i': "i < length stk - 1" by simp
  then have ins: "i \<in> {..<length stk}" by simp
  have b: "butlast stk ! i = stk ! i" using i' by (simp add: nth_butlast)
  from s ins have d: "is_dir (stk ! i)"
    and p: "archive_path (stk ! i) = take (length root + 1 + i) (q @ [n])"
    by (simp_all add: stack_for_def)
  show "is_dir (butlast stk ! i)" using b d by simp
  have "length root + 1 + i \<le> length q" using i' len le by simp
  then show "archive_path (butlast stk ! i) = take (length root + 1 + i) q"
    using b p by simp
qed

subsection \<open>The steps keep the chunks self-contained\<close>

lemma ancestors_in_chunk:
  assumes inv: "split_inv root q st" and p: "archive_path e = q @ [n]"
    and k1: "length root < k" and k2: "k < length (archive_path e)"
  shows "\<exists>j < length (one_chunk_files st).
           is_dir (one_chunk_files st ! j) \<and>
           archive_path (one_chunk_files st ! j) = take k (archive_path e)"
proof -
  from inv have s: "stack_for root q (entered_folders st)"
    and sub: "set (entered_folders st) \<subseteq> set (one_chunk_files st)"
    by (simp_all add: split_inv_def)
  from k2 p have kq: "k \<le> length q" by simp
  from stack_for_ancestor [OF s k1 kq] obtain d where
    d: "d \<in> set (entered_folders st)" "is_dir d" "archive_path d = take k q"
    by blast
  from d(1) sub have "d \<in> set (one_chunk_files st)" by blast
  then obtain j where j: "j < length (one_chunk_files st)" "one_chunk_files st ! j = d"
    by (auto simp add: in_set_conv_nth)
  have "take k (archive_path e) = take k q" using p kq by simp
  with d j show ?thesis by auto
qed

lemma split_inv_start_new_chunk:
  assumes "split_inv root q st"
  shows "split_inv root q (start_new_chunk st)"
proof -
  from assms have s: "stack_for root q (entered_folders st)"
    and c: "self_contained root (one_chunk_files st)"
    and cs: "\<forall>c \<in> set (chunks st). self_contained root c"
    by (simp_all add: split_inv_def)
  from s have "self_contained root (entered_folders st)"
    by (rule stack_for_self_contained)
  with s c cs show ?thesis
    by (simp add: split_inv_def start_new_chunk_def)
qed

lemma split_inv_append:
  assumes inv: "split_inv root q st" and p: "archive_path e = q @ [n]"
  shows "self_contained root (one_chunk_files st @ [e])"
proof (rule self_contained_snoc)
  from inv show "self_contained root (one_chunk_files st)" by (simp add: split_inv_def)
  fix k assume "length root < k" "k < length (archive_path e)"
  with inv p show "\<exists>j < length (one_chunk_files st).
           is_dir (one_chunk_files st ! j) \<and>
           archive_path (one_chunk_files st ! j) = take k (archive_path e)"
    by (rule ancestors_in_chunk)
qed

lemma split_inv_add_file:
  assumes inv: "split_inv root q st" and p: "archive_path e = q @ [n]"
  shows "split_inv root q
          (st\<lparr>one_chunk_files := one_chunk_files st @ [e],
              one_chunk_size := sz, total_file_count := cnt\<rparr>)"
proof -
  from inv have s: "stack_for root q (entered_folders st)"
    and sub: "set (entered_folders st) \<subseteq> set (one_chunk_files st)"
    and cs: "\<forall>c \<in> set (chunks st). self_contained root c"
    by (simp_all add: split_inv_def)
  have sc: "self_contained root (one_chunk_files st @ [e])"
    using inv p by (rule split_inv_append)
  show ?thesis
    unfolding split_inv_def using s sub cs sc by auto
qed

lemma split_inv_Add:
  assumes inv: "split_inv root q st" and p: "archive_path e = q @ [n]"
  shows "split_inv root q (split_step target st (Add e))"
proof -
  have inv': "split_inv root q
      (if target < one_chunk_size st + file_size e \<and> 0 < one_chunk_size st
       then start_new_chunk st else st)"
    using inv by (simp add: split_inv_start_new_chunk)
  show ?thesis
    unfolding split_step.simps Let_def
    using inv' p by (rule split_inv_add_file)
qed

lemma split_inv_Enter:
  assumes inv: "split_inv root q st" and p: "archive_path e = q @ [n]" and d: "is_dir e"
  shows "split_inv root (q @ [n]) (split_step target st (Enter e))"
proof -
  from inv have s: "stack_for root q (entered_folders st)"
    and sub: "set (entered_folders st) \<subseteq> set (one_chunk_files st)"
    and cs: "\<forall>c \<in> set (chunks st). self_contained root c"
    by (simp_all add: split_inv_def)
  have sc: "self_contained root (one_chunk_files st @ [e])"
    using inv p by (rule split_inv_append)
  have s': "stack_for root (q @ [n]) (entered_folders st @ [e])"
    using s d p by (rule stack_for_push)
  show ?thesis
    unfolding split_inv_def using s' sub cs sc by auto
qed

lemma split_inv_Leave:
  assumes inv: "split_inv root (q @ [n]) st" and le: "length root \<le> length q"
  shows "split_inv root q (split_step target st Leave)"
proof -
  from inv have s: "stack_for root (q @ [n]) (entered_folders st)"
    and sub: "set (entered_folders st) \<subseteq> set (one_chunk_files st)"
    and c: "self_contained root (one_chunk_files st)"
    and cs: "\<forall>c \<in> set (chunks st). self_contained root c"
    by (simp_all add: split_inv_def)
  have s': "stack_for root q (butlast (entered_folders st))"
    using s le by (rule stack_for_pop)
  have "set (butlast (entered_folders st)) \<subseteq> set (one_chunk_files st)"
    using sub by (meson in_set_butlastD subset_iff)
  with s' c cs show ?thesis
    by (simp add: split_inv_def)
qed

subsection \<open>The walk keeps the chunks self-contained\<close>

lemma split_inv_concat:
  assumes each: "\<And>x st. x \<in> set xs \<Longrightarrow> split_inv root q st \<Longrightarrow>
                  split_inv root q (foldl (split_step target) st (f x))"
    and inv: "split_inv root q st"
  shows "split_inv root q (foldl (split_step target) st (concat (map f xs)))"
  using each inv
proof (induction xs arbitrary: st)
  case Nil
  then show ?case by simp
next
  case (Cons x xs)
  have "split_inv root q (foldl (split_step target) st (f x))"
    using Cons.prems by simp
  then have "split_inv root q
      (foldl (split_step target) (foldl (split_step target) st (f x)) (concat (map f xs)))"
    using Cons.prems(1) by (intro Cons.IH) simp_all
  then show ?case by simp
qed

lemma split_inv_walk:
  assumes "split_inv root q st"
  shows "split_inv root q (foldl (split_step target) st (walk at_root q l node))"
  using assms
proof (induction node arbitrary: st q l at_root)
  case (File n sz)
  then show ?case by (simp add: split_inv_Add del: split_step.simps)
next
  case (Dir n children)
  let ?e = "\<lparr>archive_path = q @ [n], local_path = l @ [n], missing_ok = (\<not> at_root),
             is_dir = True, file_size = 0\<rparr>"
  from Dir.prems have le: "length root \<le> length q"
    by (simp add: split_inv_def stack_for_def)
  have 1: "split_inv root (q @ [n]) (split_step target st (Enter ?e))"
    using Dir.prems by (intro split_inv_Enter) simp_all
  have 2: "split_inv root (q @ [n])
      (foldl (split_step target) (split_step target st (Enter ?e))
         (concat (map (walk False (q @ [n]) (l @ [n])) (sort_key node_name children))))"
  proof (rule split_inv_concat [OF _ 1])
    fix x st'
    assume "x \<in> set (sort_key node_name children)"
      and "split_inv root (q @ [n]) st'"
    then show "split_inv root (q @ [n])
        (foldl (split_step target) st' (walk False (q @ [n]) (l @ [n]) x))"
      using Dir.IH by simp
  qed
  have 3: "split_inv root q
      (split_step target
        (foldl (split_step target) (split_step target st (Enter ?e))
           (concat (map (walk False (q @ [n]) (l @ [n])) (sort_key node_name children))))
        Leave)"
    using 2 le by (rule split_inv_Leave)
  then show ?case by (simp del: split_step.simps)
qed

lemma split_inv_find_and_split:
  "c \<in> set (snd (find_and_split_files_to_backup root pgdata nodes target)) \<Longrightarrow>
     self_contained root c"
proof -
  have 0: "split_inv root root split_start"
    by (simp add: split_inv_def split_start_def stack_for_Nil self_contained_Nil)
  have "split_inv root root
      (foldl (split_step target) split_start (find_files_to_backup root pgdata nodes))"
    unfolding find_files_to_backup_def
    by (rule split_inv_concat [OF _ 0]) (rule split_inv_walk)
  then show "c \<in> set (snd (find_and_split_files_to_backup root pgdata nodes target)) \<Longrightarrow>
     self_contained root c"
    by (auto simp add: find_and_split_files_to_backup_def Let_def split_inv_def
        split: if_splits)
qed

subsection \<open>The tree of the test\<close>

lemma split_tree_events:
  "find_files_to_backup [''pgdata''] [''tmp'', ''pgdata''] split_tree =
     [Enter (split_dir [''split_top'']),
      Add (split_file [''split_top'', ''f1'']),
      Add (split_file [''split_top'', ''f2'']),
      Add (split_file [''split_top'', ''f3'']),
      Enter (split_dir [''split_top'', ''split_sub'']),
      Add (split_file [''split_top'', ''split_sub'', ''f1'']),
      Add (split_file [''split_top'', ''split_sub'', ''f2'']),
      Add (split_file [''split_top'', ''split_sub'', ''f3'']),
      Leave, Leave]"
  by (simp add: find_files_to_backup_def split_tree_def split_dir_def split_file_def)

lemma split_entry_sizes: "file_size (split_file p) = 50000" "file_size (split_dir p) = 0"
  by (simp_all add: split_file_def split_dir_def)

lemma split_tree_run:
  "foldl (split_step 110000) split_start
     [Enter (split_dir [''split_top'']),
      Add (split_file [''split_top'', ''f1'']),
      Add (split_file [''split_top'', ''f2'']),
      Add (split_file [''split_top'', ''f3'']),
      Enter (split_dir [''split_top'', ''split_sub'']),
      Add (split_file [''split_top'', ''split_sub'', ''f1'']),
      Add (split_file [''split_top'', ''split_sub'', ''f2'']),
      Add (split_file [''split_top'', ''split_sub'', ''f3'']),
      Leave, Leave] =
   \<lparr>chunks =
      [[split_dir [''split_top''], split_file [''split_top'', ''f1''],
        split_file [''split_top'', ''f2'']],
       [split_dir [''split_top''], split_file [''split_top'', ''f3''],
        split_dir [''split_top'', ''split_sub''],
        split_file [''split_top'', ''split_sub'', ''f1'']]],
    one_chunk_files =
      [split_dir [''split_top''], split_dir [''split_top'', ''split_sub''],
       split_file [''split_top'', ''split_sub'', ''f2''],
       split_file [''split_top'', ''split_sub'', ''f3'']],
    one_chunk_size = 100000, entered_folders = [], total_file_count = 8\<rparr>"
  by (simp add: split_start_def start_new_chunk_def Let_def split_entry_sizes)

lemma split_tree_result:
  "find_and_split_files_to_backup [''pgdata''] [''tmp'', ''pgdata''] split_tree 110000 =
     (8,
      [[split_dir [''split_top''], split_file [''split_top'', ''f1''],
        split_file [''split_top'', ''f2'']],
       [split_dir [''split_top''], split_file [''split_top'', ''f3''],
        split_dir [''split_top'', ''split_sub''],
        split_file [''split_top'', ''split_sub'', ''f1'']],
       [split_dir [''split_top''], split_dir [''split_top'', ''split_sub''],
        split_file [''split_top'', ''split_sub'', ''f2''],
        split_file [''split_top'', ''split_sub'', ''f3'']]])"
  unfolding find_and_split_files_to_backup_def split_tree_events split_tree_run
  by simp

lemma split_entry_names:
  "join_path (archive_path (split_dir p)) = join_path (''pgdata'' # p)"
  "join_path (archive_path (split_file p)) = join_path (''pgdata'' # p)"
  by (simp_all add: split_dir_def split_file_def)

text \<open>
  Claim C5. For every tree, every root and every target chunk size, in each chunk that
  \<open>find_and_split_files_to_backup\<close> returns, every ancestor directory of every file
  entry, up to the root, is a directory entry earlier in the same chunk. For the tree
  of the test, with files of 50000 bytes and the target 110000, it counts 8 entries and
  returns three chunks, the second and the third beginning with the directories that were
  open when they were started.
\<close>

theorem find_and_split_self_contained:
  "(\<forall>c \<in> set (snd (find_and_split_files_to_backup root pgdata nodes target_chunk_size)).
      \<forall>i < length c. \<not> is_dir (c ! i) \<longrightarrow>
        (\<forall>k. length root < k \<and> k < length (archive_path (c ! i)) \<longrightarrow>
           (\<exists>j < i. is_dir (c ! j) \<and> archive_path (c ! j) = take k (archive_path (c ! i)))))
   \<and> fst (find_and_split_files_to_backup [''pgdata''] [''tmp'', ''pgdata''] split_tree 110000) = 8
   \<and> map (map (\<lambda>e. join_path (archive_path e)))
       (snd (find_and_split_files_to_backup [''pgdata''] [''tmp'', ''pgdata''] split_tree
          110000)) =
     [[''pgdata/split_top'', ''pgdata/split_top/f1'', ''pgdata/split_top/f2''],
      [''pgdata/split_top'', ''pgdata/split_top/f3'', ''pgdata/split_top/split_sub'',
       ''pgdata/split_top/split_sub/f1''],
      [''pgdata/split_top'', ''pgdata/split_top/split_sub'',
       ''pgdata/split_top/split_sub/f2'', ''pgdata/split_top/split_sub/f3'']]"
proof (intro conjI ballI allI impI)
  fix c i k
  assume c: "c \<in> set (snd (find_and_split_files_to_backup root pgdata nodes target_chunk_size))"
    and i: "i < length c"
    and k: "length root < k \<and> k < length (archive_path (c ! i))"
  from c have "self_contained root c" by (rule split_inv_find_and_split)
  moreover from i have "i \<in> {..<length c}" by simp
  moreover from k have "k \<in> {length root <..< length (archive_path (c ! i))}" by simp
  ultimately have "\<exists>j \<in> {..<i}. is_dir (c ! j) \<and>
      archive_path (c ! j) = take k (archive_path (c ! i))"
    unfolding self_contained_def by blast
  then show "\<exists>j < i. is_dir (c ! j) \<and> archive_path (c ! j) = take k (archive_path (c ! i))"
    by auto
next
  show "fst (find_and_split_files_to_backup [''pgdata''] [''tmp'', ''pgdata''] split_tree
      110000) = 8"
    by (simp add: split_tree_result)
next
  show "map (map (\<lambda>e. join_path (archive_path e)))
       (snd (find_and_split_files_to_backup [''pgdata''] [''tmp'', ''pgdata''] split_tree
          110000)) =
     [[''pgdata/split_top'', ''pgdata/split_top/f1'', ''pgdata/split_top/f2''],
      [''pgdata/split_top'', ''pgdata/split_top/f3'', ''pgdata/split_top/split_sub'',
       ''pgdata/split_top/split_sub/f1''],
      [''pgdata/split_top'', ''pgdata/split_top/split_sub'',
       ''pgdata/split_top/split_sub/f2'', ''pgdata/split_top/split_sub/f3'']]"
    by (simp add: split_tree_result split_entry_names)
qed

theorem find_and_split_self_contained_witness:
  "[split_dir [''split_top''], split_file [''split_top'', ''f3''],
    split_dir [''split_top'', ''split_sub''],
    split_file [''split_top'', ''split_sub'', ''f1'']]
     \<in> set (snd (find_and_split_files_to_backup [''pgdata''] [''tmp'', ''pgdata''] split_tree
          110000))
   \<and> \<not> is_dir (split_file [''split_top'', ''split_sub'', ''f1''])
   \<and> length [''pgdata''] < 3
   \<and> 3 < length (archive_path (split_file [''split_top'', ''split_sub'', ''f1'']))
   \<and> (\<exists>j < 3.
         is_dir ([split_dir [''split_top''], split_file [''split_top'', ''f3''],
                  split_dir [''split_top'', ''split_sub''],
                  split_file [''split_top'', ''split_sub'', ''f1'']] ! j) \<and>
         archive_path ([split_dir [''split_top''], split_file [''split_top'', ''f3''],
                  split_dir [''split_top'', ''split_sub''],
                  split_file [''split_top'', ''split_sub'', ''f1'']] ! j) =
           [''pgdata'', ''split_top'', ''split_sub''])"
proof -
  let ?c = "[split_dir [''split_top''], split_file [''split_top'', ''f3''],
             split_dir [''split_top'', ''split_sub''],
             split_file [''split_top'', ''split_sub'', ''f1'']]"
  have m: "?c \<in> set (snd (find_and_split_files_to_backup [''pgdata''] [''tmp'', ''pgdata'']
      split_tree 110000))"
    by (simp add: split_tree_result)
  have i: "(3::nat) < length ?c" by simp
  have n: "?c ! 3 = split_file [''split_top'', ''split_sub'', ''f1'']" by simp
  have f: "\<not> is_dir (split_file [''split_top'', ''split_sub'', ''f1''])"
    by (simp add: split_file_def)
  have k1: "length [''pgdata''] < (3::nat)" by simp
  have k2: "3 < length (archive_path (split_file [''split_top'', ''split_sub'', ''f1'']))"
    by (simp add: split_file_def)
  have t: "take 3 (archive_path (split_file [''split_top'', ''split_sub'', ''f1''])) =
           [''pgdata'', ''split_top'', ''split_sub'']"
    by (simp add: split_file_def)
  from find_and_split_self_contained [of "[''pgdata'']" "[''tmp'', ''pgdata'']" split_tree
      110000] m
  have "\<forall>i < length ?c. \<not> is_dir (?c ! i) \<longrightarrow>
        (\<forall>k. length [''pgdata''] < k \<and> k < length (archive_path (?c ! i)) \<longrightarrow>
           (\<exists>j < i. is_dir (?c ! j) \<and> archive_path (?c ! j) = take k (archive_path (?c ! i))))"
    by blast
  with i have "\<not> is_dir (?c ! 3) \<longrightarrow>
        (\<forall>k. length [''pgdata''] < k \<and> k < length (archive_path (?c ! 3)) \<longrightarrow>
           (\<exists>j < 3. is_dir (?c ! j) \<and> archive_path (?c ! j) = take k (archive_path (?c ! 3))))"
    by blast
  with f k1 k2 have "\<exists>j < 3. is_dir (?c ! j) \<and>
      archive_path (?c ! j) = take 3 (archive_path (?c ! 3))"
    unfolding n by blast
  then have e: "\<exists>j < 3. is_dir (?c ! j) \<and>
      archive_path (?c ! j) = [''pgdata'', ''split_top'', ''split_sub'']"
    unfolding n t .
  show ?thesis
    by (intro conjI m f k1 k2 e)
qed

end
